theory Spec2Isabelle
  imports Complex_Main
begin

section \<open>JavaScript values\<close>

text \<open>
  A JavaScript string is modelled by its UTF-8 encoding, a \<^typ>\<open>string\<close> (a list of
  8-bit characters), so that \<^verbatim>\<open>Buffer.from(s)\<close> is the string itself and a
  \<^verbatim>\<open>Buffer\<close> is a list of bytes of the same type. The only length tests the
  handlers make on strings are tests for emptiness (\<^verbatim>\<open>z.string().min(1)\<close>), which
  the encoding preserves.

  A JavaScript number is an IEEE double: a finite one is the real number it denotes,
  and the three other values are kept. The model has one zero (the sign of a zero
  decides nothing in the handlers). Arithmetic rounds as the double arithmetic does,
  see the section on numbers below.
\<close>

type_synonym buffer = "char list"

datatype number = Finite real | PInfinity | NInfinity | NaN

text \<open>
  The value of \<^verbatim>\<open>JSON.parse\<close>. The entries of an object are its own properties
  in the order \<^verbatim>\<open>Object.entries\<close> lists them; a parsed object has each key once.
\<close>

datatype json =
    JNull
  | JBool bool
  | JNum number
  | JStr string
  | JArr "json list"
  | JObj "(string \<times> json) list"

text \<open>\<^verbatim>\<open>typeof v\<close>\<close>

fun js_typeof :: "json \<Rightarrow> string" where
  "js_typeof JNull = ''object''"
| "js_typeof (JBool _) = ''boolean''"
| "js_typeof (JNum _) = ''number''"
| "js_typeof (JStr _) = ''string''"
| "js_typeof (JArr _) = ''object''"
| "js_typeof (JObj _) = ''object''"

text \<open>The truth value of \<^verbatim>\<open>v\<close> in a condition (\<^verbatim>\<open>!v\<close> is its negation).\<close>

fun truthy :: "json \<Rightarrow> bool" where
  "truthy JNull = False"
| "truthy (JBool b) = b"
| "truthy (JNum n) = (n \<noteq> Finite 0 \<and> n \<noteq> NaN)"
| "truthy (JStr s) = (s \<noteq> [])"
| "truthy (JArr _) = True"
| "truthy (JObj _) = True"

text \<open>
  \<^verbatim>\<open>(v as any).k\<close> for the keys the handlers read (\<^verbatim>\<open>cmd\<close>, \<^verbatim>\<open>payload\<close>,
  \<^verbatim>\<open>x\<close>, \<^verbatim>\<open>y\<close> and the schema fields): \<open>None\<close> is \<^verbatim>\<open>undefined\<close>. Arrays,
  strings, numbers and booleans have none of these properties.
\<close>

fun get_prop :: "json \<Rightarrow> string \<Rightarrow> json option" where
  "get_prop (JObj kvs) k = map_of kvs k"
| "get_prop _ k = None"

text \<open>\<^verbatim>\<open>Number.isFinite\<close>\<close>

fun isFinite :: "number \<Rightarrow> bool" where
  "isFinite (Finite _) = True"
| "isFinite _ = False"

section \<open>Double-precision arithmetic\<close>

text \<open>
  The operators \<^verbatim>\<open>+\<close>, \<^verbatim>\<open>-\<close>, \<^verbatim>\<open>*\<close> and \<^verbatim>\<open>/\<close> of JavaScript compute the
  exact result and round it to the nearest double, a tie going to the double with the
  even significand (IEEE 754 binary64: 53 bits of significand, exponents from \<open>-1022\<close>
  to \<open>1023\<close>, subnormal numbers below, overflow to an infinity).
\<close>

definition pow2 :: "int \<Rightarrow> real" where
  "pow2 k = (if 0 \<le> k then 2 ^ nat k else 1 / 2 ^ nat (- k))"

definition round_half_even :: "real \<Rightarrow> int" where
  "round_half_even q =
     (let f = \<lfloor>q\<rfloor>; d = q - of_int f
      in if d < 1 / 2 then f else if 1 / 2 < d then f + 1 else if even f then f else f + 1)"

text \<open>
  The exponent of \<open>a > 0\<close>: the \<open>e\<close> with \<open>2^e \<le> a < 2^(e+1)\<close>, but not below
  \<open>-1022\<close> (the subnormal numbers share the least exponent) and not above \<open>1024\<close>
  (where the result overflows). \<open>binade_up\<close> is for \<open>a \<ge> 1\<close>, \<open>binade_down\<close> for
  \<open>a < 1\<close>; both start from \<open>e = 0\<close>.
\<close>

function binade_up :: "real \<Rightarrow> int \<Rightarrow> int" where
  "binade_up a e = (if a < 2 \<or> 1024 \<le> e then e else binade_up (a / 2) (e + 1))"
  by pat_completeness auto
termination
  by (relation "measure (\<lambda>(a, e). nat (1024 - e))") auto

function binade_down :: "real \<Rightarrow> int \<Rightarrow> int" where
  "binade_down a e = (if 1 \<le> a \<or> e \<le> - 1022 then e else binade_down (a * 2) (e - 1))"
  by pat_completeness auto
termination
  by (relation "measure (\<lambda>(a, e). nat (e + 1022))") auto

definition overflow_threshold :: real where
  "overflow_threshold = 2 ^ 1024"

text \<open>
  The double nearest to the real \<open>r\<close>: the multiple of the unit in the last place
  of its exponent that is nearest to it.
\<close>

definition round_double :: "real \<Rightarrow> number" where
  "round_double r =
     (if r = 0 then Finite 0
      else
        let a = \<bar>r\<bar>;
            e = (if 1 \<le> a then binade_up a 0 else binade_down a 0);
            ulp = pow2 (e - 52);
            m = of_int (round_half_even (a / ulp)) * ulp
        in if overflow_threshold \<le> m then (if 0 < r then PInfinity else NInfinity)
           else Finite (if 0 < r then m else - m))"

fun js_neg :: "number \<Rightarrow> number" where
  "js_neg (Finite a) = Finite (- a)"
| "js_neg PInfinity = NInfinity"
| "js_neg NInfinity = PInfinity"
| "js_neg NaN = NaN"

fun js_add :: "number \<Rightarrow> number \<Rightarrow> number" where
  "js_add (Finite a) (Finite b) = round_double (a + b)"
| "js_add NaN _ = NaN"
| "js_add _ NaN = NaN"
| "js_add PInfinity NInfinity = NaN"
| "js_add NInfinity PInfinity = NaN"
| "js_add PInfinity _ = PInfinity"
| "js_add _ PInfinity = PInfinity"
| "js_add NInfinity _ = NInfinity"
| "js_add _ NInfinity = NInfinity"

definition js_sub :: "number \<Rightarrow> number \<Rightarrow> number" where
  "js_sub a b = js_add a (js_neg b)"

text \<open>The sign of a number that is not NaN: \<open>-1\<close>, \<open>0\<close> or \<open>1\<close>.\<close>

fun js_sign :: "number \<Rightarrow> int" where
  "js_sign (Finite a) = (if a < 0 then - 1 else if a = 0 then 0 else 1)"
| "js_sign PInfinity = 1"
| "js_sign NInfinity = - 1"
| "js_sign NaN = 0"

fun js_mul :: "number \<Rightarrow> number \<Rightarrow> number" where
  "js_mul (Finite a) (Finite b) = round_double (a * b)"
| "js_mul NaN _ = NaN"
| "js_mul _ NaN = NaN"
| "js_mul a b =
     (if js_sign a * js_sign b = 0 then NaN
      else if js_sign a * js_sign b = 1 then PInfinity else NInfinity)"

text \<open>
  Division; a zero divisor counts as the positive zero (the only divisor in the
  handlers is the constant 1000).
\<close>

fun js_div :: "number \<Rightarrow> number \<Rightarrow> number" where
  "js_div (Finite a) (Finite b) =
     (if b = 0 then (if a = 0 then NaN else if 0 < a then PInfinity else NInfinity)
      else round_double (a / b))"
| "js_div NaN _ = NaN"
| "js_div _ NaN = NaN"
| "js_div (Finite a) _ = Finite 0"
| "js_div a (Finite b) =
     (if js_sign a * (if b < 0 then - 1 else 1) = 1 then PInfinity else NInfinity)"
| "js_div _ _ = NaN"

text \<open>\<^verbatim>\<open>Math.abs\<close>\<close>

fun js_abs :: "number \<Rightarrow> number" where
  "js_abs (Finite a) = Finite \<bar>a\<bar>"
| "js_abs PInfinity = PInfinity"
| "js_abs NInfinity = PInfinity"
| "js_abs NaN = NaN"

text \<open>The comparisons \<^verbatim>\<open><\<close>, \<^verbatim>\<open><=\<close>, \<^verbatim>\<open>>\<close> and \<^verbatim>\<open>>=\<close>: false when an operand is NaN.\<close>

fun js_lt :: "number \<Rightarrow> number \<Rightarrow> bool" where
  "js_lt (Finite a) (Finite b) = (a < b)"
| "js_lt NaN _ = False"
| "js_lt _ NaN = False"
| "js_lt _ NInfinity = False"
| "js_lt NInfinity _ = True"
| "js_lt PInfinity _ = False"
| "js_lt _ PInfinity = True"

fun js_le :: "number \<Rightarrow> number \<Rightarrow> bool" where
  "js_le (Finite a) (Finite b) = (a \<le> b)"
| "js_le NaN _ = False"
| "js_le _ NaN = False"
| "js_le NInfinity _ = True"
| "js_le _ PInfinity = True"
| "js_le _ _ = False"

definition js_gt :: "number \<Rightarrow> number \<Rightarrow> bool" where
  "js_gt a b = js_lt b a"

definition js_ge :: "number \<Rightarrow> number \<Rightarrow> bool" where
  "js_ge a b = js_le b a"

section \<open>Library functions the code calls\<close>

text \<open>
  The cryptographic primitives, the base64 decoder of \<^verbatim>\<open>Buffer.from\<close>, the UTF-8
  decoder of \<^verbatim>\<open>Buffer.toString\<close>, \<^verbatim>\<open>JSON.parse\<close> and \<^verbatim>\<open>Number\<close> belong
  to the platform, not to this repository. They are parameters of the model: every
  theorem below holds for all of them. A function that can throw returns an option.
  \<open>TypeError_message\<close> is the text of the \<^verbatim>\<open>TypeError\<close> the engine throws for
  \<^verbatim>\<open>value.trim()\<close> on a value that is not a string; the text depends on the engine
  and on the value.
\<close>

datatype encoding = Base64 | Base64url

record prims =
  Buffer_from :: "string \<Rightarrow> encoding \<Rightarrow> buffer"
  aes_256_gcm :: "buffer \<Rightarrow> buffer \<Rightarrow> buffer \<Rightarrow> buffer \<Rightarrow> buffer option"
  aes_256_cbc :: "buffer \<Rightarrow> buffer \<Rightarrow> buffer \<Rightarrow> buffer option"
  toString_utf8 :: "buffer \<Rightarrow> string"
  JSON_parse :: "string \<Rightarrow> json option"
  Number_of :: "string \<Rightarrow> number"
  TypeError_message :: "json \<Rightarrow> string"

text \<open>
  \<^verbatim>\<open>String.prototype.trim\<close> removes the white space and the line terminators at
  both ends. In UTF-8 these are the single bytes tab, line feed, vertical tab, form
  feed, carriage return and space, the two bytes of U+00A0, and the three bytes of
  U+1680, U+2000 to U+200A, U+2028, U+2029, U+202F, U+205F, U+3000 and U+FEFF.
\<close>

definition is_space :: "char \<Rightarrow> bool" where
  "is_space c = (c \<in> set [CHR 0x09, CHR 0x0A, CHR 0x0B, CHR 0x0C, CHR 0x0D, CHR '' ''])"

definition wide_spaces2 :: "string list" where
  "wide_spaces2 = [[CHR 0xC2, CHR 0xA0]]"

definition wide_spaces3 :: "string list" where
  "wide_spaces3 =
     [[CHR 0xE1, CHR 0x9A, CHR 0x80],
      [CHR 0xE2, CHR 0x80, CHR 0x80], [CHR 0xE2, CHR 0x80, CHR 0x81],
      [CHR 0xE2, CHR 0x80, CHR 0x82], [CHR 0xE2, CHR 0x80, CHR 0x83],
      [CHR 0xE2, CHR 0x80, CHR 0x84], [CHR 0xE2, CHR 0x80, CHR 0x85],
      [CHR 0xE2, CHR 0x80, CHR 0x86], [CHR 0xE2, CHR 0x80, CHR 0x87],
      [CHR 0xE2, CHR 0x80, CHR 0x88], [CHR 0xE2, CHR 0x80, CHR 0x89],
      [CHR 0xE2, CHR 0x80, CHR 0x8A],
      [CHR 0xE2, CHR 0x80, CHR 0xA8], [CHR 0xE2, CHR 0x80, CHR 0xA9],
      [CHR 0xE2, CHR 0x80, CHR 0xAF], [CHR 0xE2, CHR 0x81, CHR 0x9F],
      [CHR 0xE3, CHR 0x80, CHR 0x80], [CHR 0xEF, CHR 0xBB, CHR 0xBF]]"

text \<open>
  The string without the leading white space, given the two-byte and the three-byte
  sequences that count as white space.
\<close>

fun strip_spaces :: "string list \<Rightarrow> string list \<Rightarrow> string \<Rightarrow> string" where
  "strip_spaces w2 w3 (a # b # c # s) =
     (if is_space a then strip_spaces w2 w3 (b # c # s)
      else if [a, b] \<in> set w2 then strip_spaces w2 w3 (c # s)
      else if [a, b, c] \<in> set w3 then strip_spaces w2 w3 s
      else a # b # c # s)"
| "strip_spaces w2 w3 [a, b] =
     (if is_space a then strip_spaces w2 w3 [b]
      else if [a, b] \<in> set w2 then []
      else [a, b])"
| "strip_spaces w2 w3 [a] = (if is_space a then [] else [a])"
| "strip_spaces w2 w3 [] = []"

text \<open>The trailing white space is the leading white space of the reversed string.\<close>

definition trim :: "string \<Rightarrow> string" where
  "trim s =
     rev (strip_spaces (map rev wide_spaces2) (map rev wide_spaces3)
            (rev (strip_spaces wide_spaces2 wide_spaces3 s)))"

text \<open>
  \<^verbatim>\<open>String.prototype.toLowerCase\<close>, on the ASCII letters. The only use is the test
  whether the lower-case \<^verbatim>\<open>alg\<close> includes \<^verbatim>\<open>gcm\<close>, and no character outside
  ASCII has one of these three letters as its lower case.
\<close>

definition lower_char :: "char \<Rightarrow> char" where
  "lower_char c =
     (let n = (of_char c :: nat) in if 65 \<le> n \<and> n \<le> 90 then char_of (n + 32) else c)"

definition toLowerCase :: "string \<Rightarrow> string" where
  "toLowerCase s = map lower_char s"

text \<open>\<^verbatim>\<open>String.prototype.includes\<close>\<close>

fun starts_with :: "string \<Rightarrow> string \<Rightarrow> bool" where
  "starts_with s [] = True"
| "starts_with [] (p # ps) = False"
| "starts_with (c # cs) (p # ps) = (c = p \<and> starts_with cs ps)"

fun str_includes :: "string \<Rightarrow> string \<Rightarrow> bool" where
  "str_includes [] p = (p = [])"
| "str_includes (c # cs) p = (starts_with (c # cs) p \<or> str_includes cs p)"

section \<open>The keyring (useLiveLinkKeys)\<close>

text \<open>
  The exceptions of the code, as values. A \<open>key_error\<close> is what the \<^verbatim>\<open>try\<close> of
  \<^verbatim>\<open>buildKeyring\<close> can catch: the \<^verbatim>\<open>Error\<close> for a key of the wrong length, or
  the \<^verbatim>\<open>TypeError\<close> of \<^verbatim>\<open>value.trim()\<close> on a value that is not a string.
\<close>

datatype key_error = InvalidKeyLength | TypeError json

datatype error =
    SyntaxError
  | EnvNotAnObject
  | ZodError
  | MissingCiphertext
  | InvalidGcmTagLength
  | InvalidGcmIvLength
  | InvalidCbcIvLength
  | DecipherFailure

text \<open>\<^verbatim>\<open>(error as Error).message\<close> in the \<^verbatim>\<open>catch\<close> of \<^verbatim>\<open>buildKeyring\<close>.\<close>

fun key_error_message :: "prims \<Rightarrow> key_error \<Rightarrow> string" where
  "key_error_message P InvalidKeyLength = ''Invalid key length (expected 32 bytes)''"
| "key_error_message P (TypeError v) = TypeError_message P v"

record keyring_entry =
  version :: string
  key :: buffer

text \<open>
  A JavaScript \<^verbatim>\<open>Map\<close> is an association list in insertion order with each key
  once. \<^verbatim>\<open>m.set(k, v)\<close> replaces the value of a key that is present, where the
  key stands, and appends a new key at the end.
\<close>

fun Map_set :: "('k \<times> 'v) list \<Rightarrow> 'k \<Rightarrow> 'v \<Rightarrow> ('k \<times> 'v) list" where
  "Map_set [] k v = [(k, v)]"
| "Map_set ((k', v') # m) k v =
     (if k' = k then (k, v) # m else (k', v') # Map_set m k v)"

text \<open>\<^verbatim>\<open>new Map(entries)\<close>\<close>

definition new_Map :: "('k \<times> 'v) list \<Rightarrow> ('k \<times> 'v) list" where
  "new_Map entries = foldl (\<lambda>m (k, v). Map_set m k v) [] entries"

text \<open>The static map of the source has no entry (the only one is commented out).\<close>

definition LIVE_LINK_HASH_KEYS :: "(string \<times> json) list" where
  "LIVE_LINK_HASH_KEYS = new_Map []"

definition hex_val :: "char \<Rightarrow> nat option" where
  "hex_val c =
     (let n = (of_char c :: nat) in
      if 48 \<le> n \<and> n \<le> 57 then Some (n - 48)
      else if 97 \<le> n \<and> n \<le> 102 then Some (n - 87)
      else if 65 \<le> n \<and> n \<le> 70 then Some (n - 55)
      else None)"

text \<open>\<^verbatim>\<open>/^[0-9a-f]{64}$/i.test(value)\<close>\<close>

definition isHexSha256 :: "string \<Rightarrow> bool" where
  "isHexSha256 v = (length v = 64 \<and> list_all (\<lambda>c. hex_val c \<noteq> None) v)"

text \<open>
  \<^verbatim>\<open>Buffer.from(value, "hex")\<close>: one byte for each pair of hexadecimal digits, up
  to the first pair that is not one.
\<close>

fun hex_decode :: "string \<Rightarrow> buffer" where
  "hex_decode (a # b # rest) =
     (case (hex_val a, hex_val b) of
        (Some h, Some l) \<Rightarrow> char_of (16 * h + l) # hex_decode rest
      | _ \<Rightarrow> [])"
| "hex_decode _ = []"

definition decodeBase64Like :: "prims \<Rightarrow> string \<Rightarrow> buffer" where
  "decodeBase64Like P v =
     (let trimmed = trim v;
          isBase64Url = (list_ex (\<lambda>c. c = CHR ''-'' \<or> c = CHR ''_'') trimmed
                         \<and> \<not> list_ex (\<lambda>c. c = CHR ''+'' \<or> c = CHR ''/'') trimmed)
      in Buffer_from P trimmed (if isBase64Url then Base64url else Base64))"

definition parseKey :: "prims \<Rightarrow> string \<Rightarrow> key_error + buffer" where
  "parseKey P v =
     (if isHexSha256 v then Inr (hex_decode v)
      else let decoded = decodeBase64Like P v
           in if length decoded \<noteq> 32 then Inl InvalidKeyLength else Inr decoded)"

text \<open>
  \<^verbatim>\<open>loadFromEnv\<close>: the argument is \<^verbatim>\<open>process.env.LIVE_LINK_HASH_KEYS_JSON\<close>
  (\<open>None\<close> when unset). The cast to \<^verbatim>\<open>Record<string, string>\<close> checks nothing, so
  the values of the map are JSON values of any kind.
\<close>

definition loadFromEnv :: "prims \<Rightarrow> string option \<Rightarrow> error + (string \<times> json) list" where
  "loadFromEnv P raw =
     (case raw of
        None \<Rightarrow> Inr (new_Map [])
      | Some r \<Rightarrow>
          if r = [] then Inr (new_Map [])
          else (case JSON_parse P r of
                  None \<Rightarrow> Inl SyntaxError
                | Some (JObj kvs) \<Rightarrow> Inr (new_Map kvs)
                | Some _ \<Rightarrow> Inl EnvNotAnObject))"

text \<open>
  A value of the map that is not a string. \<^verbatim>\<open>isHexSha256(value)\<close> tests the text
  of the value (\<^verbatim>\<open>String(value)\<close>). The text of a number, of a boolean, of null
  and of an object is never 64 hexadecimal digits; the text of an array is its
  elements' texts joined by commas, so it is 64 hexadecimal digits exactly when the
  array has one element and that element is such a string or again such an array.
\<close>

fun text_isHexSha256 :: "json \<Rightarrow> bool" where
  "text_isHexSha256 (JStr s) = isHexSha256 s"
| "text_isHexSha256 (JArr [v]) = text_isHexSha256 v"
| "text_isHexSha256 _ = False"

text \<open>
  The body of the \<^verbatim>\<open>try\<close> in \<^verbatim>\<open>buildKeyring\<close>, for one value of the merged
  map. For a string it is \<^verbatim>\<open>parseKey\<close> and the length test. For an array whose text
  is 64 hexadecimal digits, \<^verbatim>\<open>Buffer.from(value, "hex")\<close> is a buffer of one byte
  (one per element of the array) and the length test throws. For every other value
  \<^verbatim>\<open>value.trim()\<close> throws a \<^verbatim>\<open>TypeError\<close>.
\<close>

definition try_parse :: "prims \<Rightarrow> json \<Rightarrow> key_error + buffer" where
  "try_parse P k =
     (case k of
        JStr s \<Rightarrow>
          (case parseKey P s of
             Inl e \<Rightarrow> Inl e
           | Inr parsedKey \<Rightarrow>
               if length parsedKey \<noteq> 32 then Inl InvalidKeyLength else Inr parsedKey)
      | _ \<Rightarrow> if text_isHexSha256 k then Inl InvalidKeyLength else Inl (TypeError k))"

datatype effect =
    Send json
  | Close nat string
  | LogError string
  | SetTimeout real
  | ClearTimeout

text \<open>The second loop of \<^verbatim>\<open>buildKeyring\<close>: the keyring and the lines logged.\<close>

fun keyring_loop ::
  "prims \<Rightarrow> (string \<times> json) list \<Rightarrow> keyring_entry list \<times> effect list" where
  "keyring_loop P [] = ([], [])"
| "keyring_loop P ((v, k) # rest) =
     (let (keyring, logs) = keyring_loop P rest in
      case try_parse P k of
        Inr parsedKey \<Rightarrow> (\<lparr>version = v, key = parsedKey\<rparr> # keyring, logs)
      | Inl e \<Rightarrow>
          (keyring,
           LogError (''[live-link] Invalid hash key for '' @ [CHR 0x22] @ v @ [CHR 0x22]
                     @ '': '' @ key_error_message P e) # logs))"

definition merge_maps :: "('k \<times> 'v) list \<Rightarrow> ('k \<times> 'v) list \<Rightarrow> ('k \<times> 'v) list" where
  "merge_maps static env = foldl (\<lambda>m (k, v). Map_set m k v) (new_Map static) env"

text \<open>
  \<^verbatim>\<open>buildKeyring\<close> with the static map as an argument; the error is the exception
  of \<^verbatim>\<open>loadFromEnv\<close>, which \<^verbatim>\<open>buildKeyring\<close> does not catch.
\<close>

definition buildKeyring_from ::
  "prims \<Rightarrow> (string \<times> json) list \<Rightarrow> string option
   \<Rightarrow> error + (keyring_entry list \<times> effect list)" where
  "buildKeyring_from P static raw =
     (case loadFromEnv P raw of
        Inl e \<Rightarrow> Inl e
      | Inr env \<Rightarrow> Inr (keyring_loop P (merge_maps static env)))"

definition buildKeyring ::
  "prims \<Rightarrow> string option \<Rightarrow> error + (keyring_entry list \<times> effect list)" where
  "buildKeyring P raw = buildKeyring_from P LIVE_LINK_HASH_KEYS raw"

section \<open>The envelope codec (useLiveLinkCrypto)\<close>

text \<open>
  The value \<^verbatim>\<open>AuthEnvelopeSchema.parse\<close> returns. An optional field that is absent
  is \<open>None\<close>; \<open>extra\<close> holds the other properties, which \<^verbatim>\<open>passthrough\<close> keeps.
\<close>

record envelope =
  iv :: string
  data :: "string option"
  ciphertext :: "string option"
  tag :: "string option"
  alg :: "string option"
  extra :: "(string \<times> json) list"

text \<open>
  The field schemas, applied to the value of a property (\<open>None\<close> when the object has
  no such property). The result is \<open>None\<close> where zod reports an issue.
\<close>

definition z_string_min1 :: "json option \<Rightarrow> string option" where
  "z_string_min1 v = (case v of Some (JStr s) \<Rightarrow> if s \<noteq> [] then Some s else None | _ \<Rightarrow> None)"

definition z_string_min1_optional :: "json option \<Rightarrow> string option option" where
  "z_string_min1_optional v =
     (case v of
        None \<Rightarrow> Some None
      | Some (JStr s) \<Rightarrow> if s \<noteq> [] then Some (Some s) else None
      | Some _ \<Rightarrow> None)"

definition z_string_optional :: "json option \<Rightarrow> string option option" where
  "z_string_optional v =
     (case v of None \<Rightarrow> Some None | Some (JStr s) \<Rightarrow> Some (Some s) | Some _ \<Rightarrow> None)"

definition AuthEnvelopeSchema_parse :: "json \<Rightarrow> error + envelope" where
  "AuthEnvelopeSchema_parse m =
     (case m of
        JObj kvs \<Rightarrow>
          (case (z_string_min1 (map_of kvs ''iv''),
                 z_string_min1_optional (map_of kvs ''data''),
                 z_string_min1_optional (map_of kvs ''ciphertext''),
                 z_string_min1_optional (map_of kvs ''tag''),
                 z_string_optional (map_of kvs ''alg'')) of
             (Some i, Some d, Some c, Some t, Some a) \<Rightarrow>
               Inr \<lparr>iv = i, data = d, ciphertext = c, tag = t, alg = a,
                    extra = filter (\<lambda>(k, _). k \<notin> set [''iv'', ''data'', ''ciphertext'', ''tag'', ''alg'']) kvs\<rparr>
           | _ \<Rightarrow> Inl ZodError)
      | _ \<Rightarrow> Inl ZodError)"

definition parseAuthEnvelope :: "json \<Rightarrow> error + envelope" where
  "parseAuthEnvelope m = AuthEnvelopeSchema_parse m"

record auth_payload =
  nonce :: string
  payload_extra :: "(string \<times> json) list"

definition LiveLinkAuthPayloadSchema_parse :: "json \<Rightarrow> error + auth_payload" where
  "LiveLinkAuthPayloadSchema_parse m =
     (case m of
        JObj kvs \<Rightarrow>
          (case z_string_min1 (map_of kvs ''nonce'') of
             Some n \<Rightarrow> Inr \<lparr>nonce = n, payload_extra = filter (\<lambda>(k, _). k \<noteq> ''nonce'') kvs\<rparr>
           | None \<Rightarrow> Inl ZodError)
      | _ \<Rightarrow> Inl ZodError)"

definition decryptAes256Gcm :: "prims \<Rightarrow> buffer \<Rightarrow> buffer \<Rightarrow> buffer \<Rightarrow> buffer \<Rightarrow> error + buffer" where
  "decryptAes256Gcm P k i c t =
     (case aes_256_gcm P k i c t of None \<Rightarrow> Inl DecipherFailure | Some pt \<Rightarrow> Inr pt)"

definition decryptAes256Cbc :: "prims \<Rightarrow> buffer \<Rightarrow> buffer \<Rightarrow> buffer \<Rightarrow> error + buffer" where
  "decryptAes256Cbc P k i c =
     (case aes_256_cbc P k i c of None \<Rightarrow> Inl DecipherFailure | Some pt \<Rightarrow> Inr pt)"

definition decryptAuthEnvelope :: "prims \<Rightarrow> envelope \<Rightarrow> buffer \<Rightarrow> error + string" where
  "decryptAuthEnvelope P e k =
     (case (case data e of Some d \<Rightarrow> Some d | None \<Rightarrow> ciphertext e) of
        None \<Rightarrow> Inl MissingCiphertext
      | Some ciphertextBase64 \<Rightarrow>
          if ciphertextBase64 = [] then Inl MissingCiphertext
          else
            let ivBuf = decodeBase64Like P (iv e);
                ctBuf = decodeBase64Like P ciphertextBase64;
                algLower = toLowerCase (case alg e of Some a \<Rightarrow> a | None \<Rightarrow> []);
                hasTag = (case tag e of Some t \<Rightarrow> t \<noteq> [] | None \<Rightarrow> False);
                wantsGcm = (hasTag \<or> str_includes algLower ''gcm'')
            in if wantsGcm then
                 let tagBuf = (case tag e of
                                 Some t \<Rightarrow> if t \<noteq> [] then decodeBase64Like P t else []
                               | None \<Rightarrow> [])
                 in if length tagBuf \<noteq> 16 then Inl InvalidGcmTagLength
                    else if length ivBuf < 12 \<or> length ivBuf > 32 then Inl InvalidGcmIvLength
                    else map_sum id (toString_utf8 P) (decryptAes256Gcm P k ivBuf ctBuf tagBuf)
               else if length ivBuf \<noteq> 16 then Inl InvalidCbcIvLength
               else map_sum id (toString_utf8 P) (decryptAes256Cbc P k ivBuf ctBuf))"

section \<open>Sessions (useLiveLinkSessions)\<close>

datatype auth_state = Challenging | Authorized

text \<open>
  \<open>handshakeTimer\<close> is the pending timer, with its delay; \<open>lastCoord\<close> is the pair
  \<^verbatim>\<open>{x, y}\<close>. \<open>expectedSeq\<close> is an integer (the code counts in a double, which is
  exact below \<open>2^53\<close>).
\<close>

record auth_rec =
  state :: auth_state
  auth_nonce :: string
  auth_version :: "string option"
  handshakeTimer :: "real option"

record telemetry_rec =
  expectedSeq :: int
  lastAt :: "int option"
  lastPct :: "real option"
  lastCoord :: "(real \<times> real) option"

record session =
  sid :: string
  remoteAddress :: "string option"
  createdAt :: int
  auth :: auth_rec
  telemetry :: telemetry_rec

text \<open>\<^verbatim>\<open>peer.context.liveLink\<close>\<close>

record liveLink =
  ctx_nonce :: string
  authorized :: bool

text \<open>
  The session store (a \<^verbatim>\<open>Map\<close> from the peer id to the session, only looked up by
  key) and the contexts of the peers.
\<close>

record world =
  sessions :: "string \<rightharpoonup> session"
  contexts :: "string \<rightharpoonup> liveLink"

section \<open>The web socket handler (live.ws.ts)\<close>

record config =
  handshakeTimeoutMs :: real
  maxMessageBytes :: real
  maxFramesPerChunk :: real
  maxPctPerSecond :: real
  maxPctBurst :: real
  maxAbsCoord :: real
  maxCoordDelta :: real

text \<open>The first argument is \<^verbatim>\<open>process.env\<close>.\<close>

definition readNumberEnv :: "prims \<Rightarrow> (string \<rightharpoonup> string) \<Rightarrow> string \<Rightarrow> real \<Rightarrow> real" where
  "readNumberEnv P env name fallback =
     (case env name of
        None \<Rightarrow> fallback
      | Some raw \<Rightarrow>
          if raw = [] then fallback
          else (case Number_of P raw of Finite v \<Rightarrow> v | _ \<Rightarrow> fallback))"

definition LIVE_LINK_CONFIG :: "prims \<Rightarrow> (string \<rightharpoonup> string) \<Rightarrow> config" where
  "LIVE_LINK_CONFIG P env =
     \<lparr>handshakeTimeoutMs = readNumberEnv P env ''LIVE_LINK_HANDSHAKE_TIMEOUT_MS'' 5000,
      maxMessageBytes = readNumberEnv P env ''LIVE_LINK_MAX_MESSAGE_BYTES'' (256 * 1024),
      maxFramesPerChunk = readNumberEnv P env ''LIVE_LINK_MAX_FRAMES_PER_CHUNK'' 600,
      maxPctPerSecond = readNumberEnv P env ''LIVE_LINK_MAX_PCT_PER_SECOND'' 20,
      maxPctBurst = readNumberEnv P env ''LIVE_LINK_MAX_PCT_BURST'' 5,
      maxAbsCoord = readNumberEnv P env ''LIVE_LINK_MAX_ABS_COORD'' 10000000,
      maxCoordDelta = readNumberEnv P env ''LIVE_LINK_MAX_COORD_DELTA'' 20000\<rparr>"

text \<open>
  What a handler does to the peer and the process is the list of its effects, in
  order. \<^verbatim>\<open>peer.close\<close> is taken not to throw (its \<^verbatim>\<open>catch\<close> calls
  \<^verbatim>\<open>peer.terminate\<close>).
\<close>

definition sendJson :: "json \<Rightarrow> effect list" where
  "sendJson payload = [Send payload]"

definition closeUnauthorized :: "string \<Rightarrow> effect list" where
  "closeUnauthorized reason = [Close 1008 reason]"

definition killAndClose :: "string \<Rightarrow> effect list" where
  "killAndClose reason = sendJson (JObj [(''cmd'', JStr ''kill'')]) @ closeUnauthorized reason"

record telemetry_message =
  seq :: int
  current_pct :: real
  frames :: "json list"

text \<open>
  \<^verbatim>\<open>TelemetrySchema.parse\<close>: \<^verbatim>\<open>cmd\<close>, when present, is the string
  \<^verbatim>\<open>telemetry\<close>; \<^verbatim>\<open>seq\<close> is a number that is an integer and not negative;
  \<^verbatim>\<open>current_pct\<close> is a finite number; \<^verbatim>\<open>frames\<close> is an array.
\<close>

definition TelemetrySchema_parse :: "json \<Rightarrow> error + telemetry_message" where
  "TelemetrySchema_parse d =
     (case d of
        JObj kvs \<Rightarrow>
          if (case map_of kvs ''cmd'' of None \<Rightarrow> False | Some c \<Rightarrow> c \<noteq> JStr ''telemetry'')
          then Inl ZodError
          else (case map_of kvs ''seq'' of
                  Some (JNum (Finite q)) \<Rightarrow>
                    (case map_of kvs ''current_pct'' of
                       Some (JNum (Finite p)) \<Rightarrow>
                         (case map_of kvs ''frames'' of
                            Some (JArr fs) \<Rightarrow>
                              if q = of_int \<lfloor>q\<rfloor> \<and> 0 \<le> q
                              then Inr \<lparr>seq = \<lfloor>q\<rfloor>, current_pct = p, frames = fs\<rparr>
                              else Inl ZodError
                          | _ \<Rightarrow> Inl ZodError)
                     | _ \<Rightarrow> Inl ZodError)
                | _ \<Rightarrow> Inl ZodError)
      | _ \<Rightarrow> Inl ZodError)"

text \<open>
  \<^verbatim>\<open>crypto.timingSafeEqual\<close> on two buffers of the same length: whether they hold
  the same bytes.
\<close>

definition timingSafeEqual :: "buffer \<Rightarrow> buffer \<Rightarrow> bool" where
  "timingSafeEqual a b = (a = b)"

definition timingSafeEqualString :: "string \<Rightarrow> string \<Rightarrow> bool" where
  "timingSafeEqualString a b =
     (let aBuf = a; bBuf = b
      in if length aBuf \<noteq> length bBuf then False else timingSafeEqual aBuf bBuf)"

subsection \<open>open, close and the handshake timer\<close>

text \<open>
  \<open>now\<close> is \<^verbatim>\<open>Date.now()\<close>, \<open>n\<close> the nonce drawn by \<^verbatim>\<open>randomBytes\<close>.
\<close>

definition handler_open ::
  "config \<Rightarrow> keyring_entry list \<Rightarrow> int \<Rightarrow> string \<Rightarrow> string option \<Rightarrow> string \<Rightarrow> world
   \<Rightarrow> effect list \<times> world" where
  "handler_open cfg keyring now peer_id remote n W =
     (let W1 = W\<lparr>contexts := (contexts W)(peer_id \<mapsto> \<lparr>ctx_nonce = n, authorized = False\<rparr>)\<rparr>;
          s = \<lparr>sid = peer_id, remoteAddress = remote, createdAt = now,
               auth = \<lparr>state = Challenging, auth_nonce = n, auth_version = None,
                       handshakeTimer = Some (handshakeTimeoutMs cfg)\<rparr>,
               telemetry = \<lparr>expectedSeq = 1, lastAt = None, lastPct = None, lastCoord = None\<rparr>\<rparr>;
          W2 = W1\<lparr>sessions := (sessions W1)(peer_id \<mapsto> s)\<rparr>
      in if length keyring = 0
         then ([SetTimeout (handshakeTimeoutMs cfg),
                LogError ''[live-link] No LIVE_LINK_HASH_KEYS configured; rejecting connection'']
               @ closeUnauthorized ''Server misconfigured'', W2)
         else ([SetTimeout (handshakeTimeoutMs cfg)]
               @ sendJson (JObj [(''cmd'', JStr ''auth_challenge''), (''nonce'', JStr n)]), W2))"

text \<open>The callback of the handshake timer, on the session it was armed for.\<close>

definition handshake_timeout :: "session \<Rightarrow> effect list" where
  "handshake_timeout s =
     (if state (auth s) \<noteq> Authorized then closeUnauthorized ''Auth timeout'' else [])"

definition handler_close :: "string \<Rightarrow> world \<Rightarrow> effect list \<times> world" where
  "handler_close peer_id W =
     (case sessions W peer_id of
        None \<Rightarrow> ([], W)
      | Some s \<Rightarrow>
          ((if handshakeTimer (auth s) \<noteq> None then [ClearTimeout] else []),
           W\<lparr>sessions := (sessions W)(peer_id := None)\<rparr>))"

subsection \<open>message: the handshake\<close>

text \<open>
  The key-trial loop. Its three exits: \<open>Authed\<close> is the \<^verbatim>\<open>break\<close> with the two
  variables set, \<open>NonceMismatch\<close> the \<^verbatim>\<open>return\<close> inside the loop, \<open>Exhausted\<close>
  the end of the keyring. An exception in the body is the \<^verbatim>\<open>continue\<close>.
\<close>

datatype trial = Authed string auth_payload | NonceMismatch | Exhausted

fun key_trial :: "prims \<Rightarrow> envelope \<Rightarrow> string \<Rightarrow> keyring_entry list \<Rightarrow> trial" where
  "key_trial P e n [] = Exhausted"
| "key_trial P e n (entry # rest) =
     (case decryptAuthEnvelope P e (key entry) of
        Inl _ \<Rightarrow> key_trial P e n rest
      | Inr plaintext \<Rightarrow>
          (case JSON_parse P plaintext of
             None \<Rightarrow> key_trial P e n rest
           | Some j \<Rightarrow>
               (case LiveLinkAuthPayloadSchema_parse j of
                  Inl _ \<Rightarrow> key_trial P e n rest
                | Inr parsed \<Rightarrow>
                    if \<not> timingSafeEqualString (nonce parsed) n then NonceMismatch
                    else Authed (version entry) parsed)))"

definition envelopeCandidate :: "json \<Rightarrow> json" where
  "envelopeCandidate d =
     (if truthy d \<and> js_typeof d = ''object''
      then (case get_prop d ''payload'' of Some p \<Rightarrow> p | None \<Rightarrow> d)
      else d)"

text \<open>
  The branch of \<^verbatim>\<open>message\<close> for a session that is not authorized: the effects and
  the session after it. The version of an entry is a string, and the empty string is
  false in the test after the loop.
\<close>

definition handshake_branch ::
  "prims \<Rightarrow> keyring_entry list \<Rightarrow> json \<Rightarrow> session \<Rightarrow> effect list \<times> session" where
  "handshake_branch P keyring d s =
     (case parseAuthEnvelope (envelopeCandidate d) of
        Inl _ \<Rightarrow> (closeUnauthorized ''Bad auth envelope'', s)
      | Inr e \<Rightarrow>
          (case key_trial P e (auth_nonce (auth s)) keyring of
             NonceMismatch \<Rightarrow> (closeUnauthorized ''Nonce mismatch'', s)
           | Exhausted \<Rightarrow> (closeUnauthorized ''Unauthorized'', s)
           | Authed authedVersion authPayload \<Rightarrow>
               if authedVersion = [] then (closeUnauthorized ''Unauthorized'', s)
               else
                 ((if handshakeTimer (auth s) \<noteq> None then [ClearTimeout] else [])
                  @ sendJson (JObj [(''cmd'', JStr ''auth_ok''), (''version'', JStr authedVersion)]),
                  s\<lparr>auth := (auth s)\<lparr>state := Authorized,
                                      auth_version := Some authedVersion,
                                      handshakeTimer := None\<rparr>\<rparr>)))"

subsection \<open>message: telemetry\<close>

text \<open>
  The loop over the frames. The result is the reason of the kill that ends the loop
  (\<open>None\<close> when the loop runs to its end) and the telemetry state at that point.
  \<^verbatim>\<open>Math.abs\<close> and the comparisons are exact; the subtraction rounds.
\<close>

fun frames_loop ::
  "config \<Rightarrow> json list \<Rightarrow> telemetry_rec \<Rightarrow> string option \<times> telemetry_rec" where
  "frames_loop cfg [] t = (None, t)"
| "frames_loop cfg (frame # rest) t =
     (if \<not> truthy frame \<or> js_typeof frame \<noteq> ''object'' then frames_loop cfg rest t
      else
        (case get_prop frame ''x'' of
           None \<Rightarrow> frames_loop cfg rest t
         | Some x \<Rightarrow>
             (case get_prop frame ''y'' of
                None \<Rightarrow> frames_loop cfg rest t
              | Some y \<Rightarrow>
                  (case (x, y) of
                     (JNum (Finite xv), JNum (Finite yv)) \<Rightarrow>
                       if \<bar>xv\<bar> > maxAbsCoord cfg \<or> \<bar>yv\<bar> > maxAbsCoord cfg
                       then (Some ''Impossible coordinates'', t)
                       else
                         (case lastCoord t of
                            Some (lx, ly) \<Rightarrow>
                              let dx = js_abs (js_sub (Finite xv) (Finite lx));
                                  dy = js_abs (js_sub (Finite yv) (Finite ly))
                              in if js_gt dx (Finite (maxCoordDelta cfg))
                                    \<or> js_gt dy (Finite (maxCoordDelta cfg))
                                 then (Some ''Impossible movement'', t)
                                 else frames_loop cfg rest (t\<lparr>lastCoord := Some (xv, yv)\<rparr>)
                          | None \<Rightarrow> frames_loop cfg rest (t\<lparr>lastCoord := Some (xv, yv)\<rparr>))
                   | _ \<Rightarrow> (Some ''Invalid coordinates'', t)))))"

text \<open>
  The progress-rate check, made when both \<open>lastAt\<close> and \<open>lastPct\<close> are set: the
  reason of the kill, or \<open>None\<close>.
\<close>

definition rate_check :: "config \<Rightarrow> int \<Rightarrow> int \<Rightarrow> real \<Rightarrow> real \<Rightarrow> string option" where
  "rate_check cfg now la lp cur =
     (let dtSec = js_div (js_sub (Finite (real_of_int now)) (Finite (real_of_int la)))
                    (Finite 1000)
      in if js_le dtSec (Finite 0) then Some ''Invalid time delta''
         else
           let deltaPct = js_sub (Finite cur) (Finite lp)
           in if js_ge deltaPct (Finite 0)
              then
                let maxAllowed = js_add (Finite (maxPctBurst cfg))
                                   (js_mul (Finite (maxPctPerSecond cfg)) dtSec)
                in if js_gt deltaPct maxAllowed then Some ''Speedhack (pct jump)'' else None
              else None)"

text \<open>
  The branch of \<^verbatim>\<open>message\<close> for an authorized session, on the parsed message
  \<open>d\<close>: the reason of the kill, if any, and the telemetry state it leaves.
\<close>

definition telemetry_branch ::
  "config \<Rightarrow> int \<Rightarrow> json \<Rightarrow> telemetry_rec \<Rightarrow> string option \<times> telemetry_rec" where
  "telemetry_branch cfg now d t =
     (case TelemetrySchema_parse d of
        Inl _ \<Rightarrow> (Some ''Bad telemetry'', t)
      | Inr m \<Rightarrow>
          if seq m \<noteq> expectedSeq t then (Some ''Sequence mismatch'', t)
          else
            let t1 = t\<lparr>expectedSeq := expectedSeq t + 1\<rparr>;
                rate = (case (lastAt t1, lastPct t1) of
                          (Some la, Some lp) \<Rightarrow> rate_check cfg now la lp (current_pct m)
                        | _ \<Rightarrow> None)
            in case rate of
                 Some reason \<Rightarrow> (Some reason, t1)
               | None \<Rightarrow>
                   let t2 = t1\<lparr>lastAt := Some now, lastPct := Some (current_pct m)\<rparr>
                   in if real (length (frames m)) > maxFramesPerChunk cfg
                      then (Some ''Too many frames'', t2)
                      else frames_loop cfg (frames m) t2)"

subsection \<open>message\<close>

text \<open>
  \<open>msg\<close> is the text of the message: its length is the \<^verbatim>\<open>byteLength\<close> and
  \<^verbatim>\<open>message.json()\<close> parses it. The session object is shared with the store, so
  the store holds the session as the branch leaves it.
\<close>

definition handler_message ::
  "config \<Rightarrow> prims \<Rightarrow> keyring_entry list \<Rightarrow> int \<Rightarrow> string \<Rightarrow> string \<Rightarrow> world
   \<Rightarrow> effect list \<times> world" where
  "handler_message cfg P keyring now peer_id msg W =
     (case sessions W peer_id of
        None \<Rightarrow> (closeUnauthorized ''No session'', W)
      | Some s \<Rightarrow>
          if real (length msg) > maxMessageBytes cfg then (killAndClose ''Message too large'', W)
          else
            (case JSON_parse P msg of
               None \<Rightarrow> (killAndClose ''Invalid JSON'', W)
             | Some d \<Rightarrow>
                 if truthy d \<and> js_typeof d = ''object'' \<and> get_prop d ''cmd'' = Some (JStr ''ping'')
                 then (sendJson (JObj [(''cmd'', JStr ''pong''), (''t'', JNum (Finite (real_of_int now)))]), W)
                 else if state (auth s) \<noteq> Authorized then
                   (case handshake_branch P keyring d s of
                      (effs, s') \<Rightarrow>
                        (effs,
                         W\<lparr>sessions := (sessions W)(peer_id \<mapsto> s'),
                           contexts :=
                             (if state (auth s') = Authorized
                              then (case contexts W peer_id of
                                      Some c \<Rightarrow> (contexts W)(peer_id \<mapsto> c\<lparr>authorized := True\<rparr>)
                                    | None \<Rightarrow> contexts W)
                              else contexts W)\<rparr>))
                 else
                   (case telemetry_branch cfg now d (telemetry s) of
                      (r, t') \<Rightarrow>
                        ((case r of None \<Rightarrow> [] | Some reason \<Rightarrow> killAndClose reason),
                         W\<lparr>sessions := (sessions W)(peer_id \<mapsto> s\<lparr>telemetry := t'\<rparr>)\<rparr>))))"

section \<open>Reference definitions and concrete instances\<close>

text \<open>
  The merged map in the words of the specification: the static entries in their order,
  each with the value of the environment where the environment has the same version,
  followed by the entries of the environment whose version the static map lacks.
\<close>

definition spec_merged :: "('k \<times> 'v) list \<Rightarrow> ('k \<times> 'v) list \<Rightarrow> ('k \<times> 'v) list" where
  "spec_merged static env =
     map (\<lambda>(v, k). (v, case map_of env v of Some k' \<Rightarrow> k' | None \<Rightarrow> k)) static
     @ filter (\<lambda>(v, k). v \<notin> fst ` set static) env"

text \<open>
  The decoding of a key in the words of the specification: a string of 64
  hexadecimal digits, in either case, is the 32 bytes its pairs of digits denote; any
  other string is trimmed and decoded as base64, or as URL-safe base64 when it has a
  \<open>-\<close> or a \<open>_\<close> and neither \<open>+\<close> nor \<open>/\<close>, and is a key when that gives 32
  bytes. A value that is not a string is not a key.
\<close>

definition hex_digits :: string where
  "hex_digits = ''0123456789abcdefABCDEF''"

definition spec_hex_digit :: "char \<Rightarrow> nat" where
  "spec_hex_digit c =
     (case map_of (zip hex_digits
                     [0, 1, 2, 3, 4, 5, 6, 7, 8, 9, 10, 11, 12, 13, 14, 15, 10, 11, 12, 13, 14, 15])
             c of
        Some d \<Rightarrow> d
      | None \<Rightarrow> 0)"

definition spec_decode :: "prims \<Rightarrow> string \<Rightarrow> buffer option" where
  "spec_decode P s =
     (if length s = 64 \<and> set s \<subseteq> set hex_digits
      then Some (map (\<lambda>i. char_of (16 * spec_hex_digit (s ! (2 * i))
                                   + spec_hex_digit (s ! (2 * i + 1)))) [0..<32])
      else
        let t = trim s;
            url = ((CHR ''-'' \<in> set t \<or> CHR ''_'' \<in> set t)
                   \<and> CHR ''+'' \<notin> set t \<and> CHR ''/'' \<notin> set t);
            b = Buffer_from P t (if url then Base64url else Base64)
        in if length b = 32 then Some b else None)"

definition spec_key :: "prims \<Rightarrow> json \<Rightarrow> buffer option" where
  "spec_key P k = (case k of JStr s \<Rightarrow> spec_decode P s | _ \<Rightarrow> None)"

text \<open>
  The line \<^verbatim>\<open>buildKeyring\<close> logs for the entry of version \<open>v\<close> that it drops, with
  the message of the exception.
\<close>

definition spec_log_line :: "string \<Rightarrow> string \<Rightarrow> effect" where
  "spec_log_line v msg =
     LogError (''[live-link] Invalid hash key for '' @ [CHR 0x22] @ v @ [CHR 0x22] @ '': '' @ msg)"

text \<open>
  A small platform for the examples: the base64 decoder is the identity and the
  URL-safe one reverses its input, the block cipher returns the ciphertext under the
  key \<open>K1\<close> and fails under any other key, and \<^verbatim>\<open>JSON.parse\<close> knows four texts.
\<close>

definition hexA :: string where
  "hexA = ''0123456789abcdef0123456789abcdef0123456789abcdef0123456789ABCDEF''"

definition P0 :: prims where
  "P0 = \<lparr>Buffer_from = (\<lambda>s enc. case enc of Base64 \<Rightarrow> s | Base64url \<Rightarrow> rev s),
         aes_256_gcm = (\<lambda>k i c t. None),
         aes_256_cbc = (\<lambda>k i c. if k = ''K1'' then Some c else None),
         toString_utf8 = (\<lambda>b. b),
         JSON_parse =
           (\<lambda>s. if s = ''E'' then
                  Some (JObj [(''b'', JStr ''0123456789abcdef0123456789abcd-_''),
                              (''c'', JStr ''x''), (''d'', JNull)])
                else if s = ''M'' then
                  Some (JObj [(''payload'',
                               JObj [(''iv'', JStr ''0123456789abcdef''), (''data'', JStr ''C'')])])
                else if s = ''C'' then Some (JObj [(''nonce'', JStr ''N'')])
                else if s = ''T'' then
                  Some (JObj [(''seq'', JNum (Finite 1)), (''current_pct'', JNum (Finite 0)),
                              (''frames'', JArr [JNull])])
                else None),
         Number_of = (\<lambda>s. if s = ''-1'' then Finite (- 1) else NaN),
         TypeError_message = (\<lambda>v. ''not a string'')\<rparr>"

text \<open>
  A keyring of three entries, of which only the second decrypts on the small platform;
  the store after \<open>open\<close> for the peer \<open>p\<close> with the nonce \<open>n\<close>; and the store
  after that peer has answered the challenge \<open>N\<close> with the message \<open>M\<close>.
\<close>

definition keyring0 :: "keyring_entry list" where
  "keyring0 = [\<lparr>version = ''v0'', key = ''K0''\<rparr>, \<lparr>version = ''v1'', key = ''K1''\<rparr>,
               \<lparr>version = ''v2'', key = ''K2''\<rparr>]"

definition no_connections :: world where
  "no_connections = \<lparr>sessions = Map.empty, contexts = Map.empty\<rparr>"

definition W_open :: "string \<Rightarrow> world" where
  "W_open n =
     snd (handler_open (LIVE_LINK_CONFIG P0 Map.empty) keyring0 0 ''p'' None n no_connections)"

definition W_auth :: world where
  "W_auth = snd (handler_message (LIVE_LINK_CONFIG P0 Map.empty) P0 keyring0 1 ''p'' ''M''
                   (W_open ''N''))"

section \<open>Rounding\<close>

declare binade_up.simps [simp del] binade_down.simps [simp del]

text \<open>Rounding a number whose exponent is known.\<close>

lemma round_double_at:
  assumes "r \<noteq> 0" and "(if 1 \<le> \<bar>r\<bar> then binade_up \<bar>r\<bar> 0 else binade_down \<bar>r\<bar> 0) = e"
  shows "round_double r =
     (if overflow_threshold \<le> of_int (round_half_even (\<bar>r\<bar> / pow2 (e - 52))) * pow2 (e - 52)
      then (if 0 < r then PInfinity else NInfinity)
      else Finite (if 0 < r then of_int (round_half_even (\<bar>r\<bar> / pow2 (e - 52))) * pow2 (e - 52)
                   else - (of_int (round_half_even (\<bar>r\<bar> / pow2 (e - 52))) * pow2 (e - 52))))"
  unfolding round_double_def Let_def assms(2) using assms(1) by (simp only: if_False)

lemma binade_up_eq:
  "e + int k \<le> 1024 \<Longrightarrow> 2 ^ k \<le> a \<Longrightarrow> a < 2 ^ (k + 1) \<Longrightarrow> binade_up a e = e + int k"
proof (induction k arbitrary: a e)
  case 0
  then show ?case by (subst binade_up.simps) simp
next
  case (Suc k)
  have "2 \<le> a"
  proof -
    have "(1::real) \<le> 2 ^ k" by (rule one_le_power) simp
    then show ?thesis using Suc.prems(2) by (simp only: power_Suc)
  qed
  moreover have "e < 1024" using Suc.prems(1) by simp
  ultimately have "binade_up a e = binade_up (a / 2) (e + 1)"
    by (subst binade_up.simps) simp
  also have "\<dots> = (e + 1) + int k"
    using Suc.prems by (intro Suc.IH) simp_all
  finally show ?case by simp
qed

lemma round_half_even_of_int: "round_half_even (of_int n) = n"
  by (simp add: round_half_even_def)

text \<open>The integers below \<open>2^53\<close> are doubles.\<close>

lemma round_double_nat:
  assumes "0 < n" and "n < 2 ^ 53"
  shows "round_double (real n) = Finite (real n)"
proof -
  obtain k where k: "2 ^ k \<le> n" "n < 2 ^ (k + 1)"
    using ex_power_ivl1[of 2 n] assms(1) by auto
  have k52: "k \<le> 52"
  proof (rule ccontr)
    assume "\<not> k \<le> 52"
    then have "(2::nat) ^ 53 \<le> 2 ^ k" by (intro power_increasing) simp_all
    with k(1) assms(2) show False by simp
  qed
  have a: "(2::real) ^ k \<le> real n" "real n < 2 ^ (k + 1)"
    using k by (metis of_nat_le_iff of_nat_numeral of_nat_power,
                metis of_nat_less_iff of_nat_numeral of_nat_power)
  have b: "binade_up (real n) 0 = int k"
    using binade_up_eq[of 0 k "real n"] a k52 by simp
  have e: "(if 1 \<le> \<bar>real n\<bar> then binade_up \<bar>real n\<bar> 0 else binade_down \<bar>real n\<bar> 0) = int k"
    using assms(1) b by simp
  have p: "pow2 (int k - 52) = 1 / 2 ^ (52 - k)"
    using k52 by (auto simp: pow2_def nat_diff_distrib')
  have q: "real n / pow2 (int k - 52) = of_int (int n * 2 ^ (52 - k))"
    by (simp add: p)
  have m: "of_int (round_half_even (real n / pow2 (int k - 52))) * pow2 (int k - 52) = real n"
    unfolding q round_half_even_of_int by (simp add: p)
  have "real n < overflow_threshold"
  proof -
    have "real n < 2 ^ 53" using assms(2) by (metis of_nat_less_iff of_nat_numeral of_nat_power)
    also have "(2::real) ^ 53 \<le> 2 ^ 1024" by (intro power_increasing) simp_all
    finally show ?thesis unfolding overflow_threshold_def .
  qed
  moreover have r0: "real n \<noteq> 0" using assms(1) by simp
  ultimately show ?thesis
    unfolding round_double_at[OF r0 e] abs_of_nat m using assms(1) by simp
qed

lemma round_double_numeral [simp]:
  "numeral w < (2::nat) ^ 53 \<Longrightarrow> round_double (numeral w) = Finite (numeral w)"
  using round_double_nat[of "numeral w"] by simp

lemma round_double_0 [simp]: "round_double 0 = Finite 0"
  by (simp add: round_double_def)

lemma round_double_1 [simp]: "round_double 1 = Finite 1"
  using round_double_nat[of 1] by simp

lemma round_double_minus [simp]: "round_double (- r) = js_neg (round_double r)"
  by (auto simp: round_double_def Let_def)

lemma round_double_not_NaN [simp]: "round_double r \<noteq> NaN"
  by (auto simp: round_double_def Let_def)

lemma js_abs_sub_not_NaN [simp]: "js_abs (js_sub (Finite a) (Finite b)) \<noteq> NaN"
proof -
  have "js_sub (Finite a) (Finite b) = round_double (a - b)" by (simp add: js_sub_def)
  then show ?thesis using round_double_not_NaN[of "a - b"]
    by (cases "round_double (a - b)") simp_all
qed

lemma js_sub_not_NaN [simp]: "js_sub (Finite a) (Finite b) \<noteq> NaN"
  by (simp add: js_sub_def)

lemma js_add_mul_not_NaN [simp]:
  "js_add (Finite b) (js_mul (Finite r) (Finite d)) \<noteq> NaN"
  using round_double_not_NaN[of "r * d"]
  by (cases "round_double (r * d)") simp_all

text \<open>Without NaN the comparisons are those of a linear order.\<close>

lemma not_js_gt: "a \<noteq> NaN \<Longrightarrow> b \<noteq> NaN \<Longrightarrow> (\<not> js_gt a b) = js_le a b"
  by (cases a; cases b) (auto simp: js_gt_def)

lemma not_js_ge: "a \<noteq> NaN \<Longrightarrow> b \<noteq> NaN \<Longrightarrow> (\<not> js_ge a b) = js_lt a b"
  by (cases a; cases b) (auto simp: js_ge_def)

text \<open>The roundings of the examples.\<close>

lemma rounding_examples:
  "round_double (1 / 100) = Finite (5764607523034235 / 576460752303423488)"
  "round_double (28823037615171175 / 144115188075855872)
     = Finite (3602879701896397 / 18014398509481984)"
  "round_double (93674872249306317 / 18014398509481984)
     = Finite (5854679515581645 / 1125899906842624)"
  "round_double (5854679515581645 / 1125899906842624)
     = Finite (5854679515581645 / 1125899906842624)"
  "round_double (23058430092136939754881 / 1152921504606846976) = Finite 20000"
  "round_double (14411518807585587 / 18014398509481984)
     = Finite (3602879701896397 / 4503599627370496)"
proof -
  show "round_double (1 / 100) = Finite (5764607523034235 / 576460752303423488)"
    by (subst round_double_at[where e = "- 7"])
       (simp_all add: binade_down.simps pow2_def round_half_even_def Let_def overflow_threshold_def)
  show "round_double (28823037615171175 / 144115188075855872)
     = Finite (3602879701896397 / 18014398509481984)"
    by (subst round_double_at[where e = "- 3"])
       (simp_all add: binade_down.simps pow2_def round_half_even_def Let_def overflow_threshold_def)
  show "round_double (93674872249306317 / 18014398509481984)
     = Finite (5854679515581645 / 1125899906842624)"
    by (subst round_double_at[where e = 2])
       (simp_all add: binade_up.simps pow2_def round_half_even_def Let_def overflow_threshold_def)
  show "round_double (5854679515581645 / 1125899906842624)
     = Finite (5854679515581645 / 1125899906842624)"
    by (subst round_double_at[where e = 2])
       (simp_all add: binade_up.simps pow2_def round_half_even_def Let_def overflow_threshold_def)
  show "round_double (23058430092136939754881 / 1152921504606846976) = Finite 20000"
    by (subst round_double_at[where e = 14])
       (simp_all add: binade_up.simps pow2_def round_half_even_def Let_def overflow_threshold_def)
  show "round_double (14411518807585587 / 18014398509481984)
     = Finite (3602879701896397 / 4503599627370496)"
    by (subst round_double_at[where e = "- 1"])
       (simp_all add: binade_down.simps pow2_def round_half_even_def Let_def overflow_threshold_def)
qed

section \<open>The keyring\<close>

lemma Map_set_keys:
  "map fst (Map_set m k v) = (if k \<in> fst ` set m then map fst m else map fst m @ [k])"
  by (induction m k v rule: Map_set.induct) auto

lemma Map_set_distinct: "distinct (map fst m) \<Longrightarrow> distinct (map fst (Map_set m k v))"
  by (simp add: Map_set_keys)

lemma Map_set_absent: "k \<notin> fst ` set m \<Longrightarrow> Map_set m k v = m @ [(k, v)]"
  by (induction m k v rule: Map_set.induct) auto

lemma override_absent:
  "k \<notin> fst ` set m \<Longrightarrow> map (\<lambda>(a, b). (a, if a = k then v else f a b)) m = map (\<lambda>(a, b). (a, f a b)) m"
  by (induction m) auto

lemma Map_set_present:
  "distinct (map fst m) \<Longrightarrow> k \<in> fst ` set m \<Longrightarrow>
   Map_set m k v = map (\<lambda>(a, b). (a, if a = k then v else b)) m"
proof (induction m k v rule: Map_set.induct)
  case (1 k v)
  then show ?case by simp
next
  case (2 k' v' m k v)
  show ?case
  proof (cases "k' = k")
    case True
    then have "k \<notin> fst ` set m" using "2.prems"(1) by auto
    then have "map (\<lambda>(a, b). (a, if a = k then v else b)) m = map (\<lambda>(a, b). (a, b)) m"
      by (rule override_absent[where f = "\<lambda>a b. b"])
    then show ?thesis using True by simp
  next
    case False
    then show ?thesis using 2 by auto
  qed
qed

lemma spec_merged_step:
  assumes "distinct (map fst m)" and "k \<notin> fst ` set env"
  shows "spec_merged (Map_set m k v) env = spec_merged m ((k, v) # env)"
proof (cases "k \<in> fst ` set m")
  case True
  have none: "map_of env k = None" using assms(2) by (simp add: map_of_eq_None_iff)
  have keys: "fst ` set (Map_set m k v) = fst ` set m"
    using Map_set_keys[of m k v] True by (metis list.set_map)
  have "spec_merged (Map_set m k v) env =
          map (\<lambda>(a, b). (a, case map_of env a of Some k' \<Rightarrow> k' | None \<Rightarrow> b)) (Map_set m k v)
          @ filter (\<lambda>(a, b). a \<notin> fst ` set m) env"
    by (simp add: spec_merged_def keys)
  then show ?thesis
    using True none
    by (simp add: spec_merged_def Map_set_present[OF assms(1) True] case_prod_beta o_def)
next
  case False
  have none: "map_of env k = None" using assms(2) by (simp add: map_of_eq_None_iff)
  have f: "filter (\<lambda>(a, b). a \<noteq> k \<and> a \<notin> fst ` set m) env = filter (\<lambda>(a, b). a \<notin> fst ` set m) env"
    using assms(2) by (intro filter_cong) (auto simp: rev_image_eqI)
  have g: "map (\<lambda>(a, b). (a, if a = k then v else case map_of env a of None \<Rightarrow> b | Some k' \<Rightarrow> k')) m
         = map (\<lambda>(a, b). (a, case map_of env a of None \<Rightarrow> b | Some k' \<Rightarrow> k')) m"
    using False by (rule override_absent)
  show ?thesis
    using False none f
    by (auto simp: spec_merged_def Map_set_absent[OF False] case_prod_beta rev_image_eqI)
qed

lemma foldl_Map_set:
  "distinct (map fst m) \<Longrightarrow> distinct (map fst env) \<Longrightarrow>
   foldl (\<lambda>m (k, v). Map_set m k v) m env = spec_merged m env"
proof (induction env arbitrary: m)
  case Nil
  then show ?case by (simp add: spec_merged_def case_prod_beta)
next
  case (Cons kv env)
  obtain k v where kv: "kv = (k, v)" by (cases kv)
  have d: "distinct (map fst (Map_set m k v))" using Cons.prems(1) by (rule Map_set_distinct)
  have "foldl (\<lambda>m (k, v). Map_set m k v) m (kv # env) = spec_merged (Map_set m k v) env"
    using Cons.IH[OF d] Cons.prems(2) by (simp add: kv)
  also have "\<dots> = spec_merged m (kv # env)"
    unfolding kv using Cons.prems by (intro spec_merged_step) (auto simp: kv)
  finally show ?case .
qed


lemma new_Map_distinct_id: "distinct (map fst xs) \<Longrightarrow> new_Map xs = xs"
  unfolding new_Map_def by (subst foldl_Map_set) (simp_all add: spec_merged_def case_prod_beta)

lemma foldl_Map_set_distinct:
  "distinct (map fst m) \<Longrightarrow> distinct (map fst (foldl (\<lambda>m (k, v). Map_set m k v) m xs))"
  by (induction xs arbitrary: m) (auto simp: Map_set_distinct)

lemma new_Map_distinct: "distinct (map fst (new_Map xs))"
  unfolding new_Map_def by (rule foldl_Map_set_distinct) simp

lemma loadFromEnv_distinct: "loadFromEnv P raw = Inr env \<Longrightarrow> distinct (map fst env)"
  by (auto simp: loadFromEnv_def new_Map_distinct
      split: option.splits if_splits json.splits)

lemma merge_maps_spec:
  "distinct (map fst static) \<Longrightarrow> distinct (map fst env) \<Longrightarrow>
   merge_maps static env = spec_merged static env"
  unfolding merge_maps_def by (simp add: new_Map_distinct_id foldl_Map_set)

lemma of_char_cases:
  assumes "lo \<le> (of_char c :: nat)" and "of_char c < lo + length ds"
      and "map of_char ds = [lo..<lo + length ds]"
  shows "c \<in> set ds"
proof -
  have "of_char c \<in> set [lo..<lo + length ds]" using assms(1,2) by simp
  then have "of_char c \<in> set (map of_char ds :: nat list)" using assms(3) by simp
  then obtain d where "d \<in> set ds" "(of_char c :: nat) = of_char d" by auto
  then show ?thesis by simp
qed

lemma hex_val_iff: "(hex_val c \<noteq> None) = (c \<in> set hex_digits)"
  unfolding hex_digits_def
proof
  define n :: nat where "n = of_char c"
  assume h: "hex_val c \<noteq> None"
  then consider "48 \<le> n \<and> n < 48 + 10" | "97 \<le> n \<and> n < 97 + 6" | "65 \<le> n \<and> n < 65 + 6"
    unfolding hex_val_def Let_def n_def[symmetric] by (auto split: if_splits)
  then show "c \<in> set ''0123456789abcdefABCDEF''"
  proof cases
    case 1
    then have "c \<in> set ''0123456789''"
      unfolding n_def by (intro of_char_cases[where lo = 48]) (simp_all add: upt_rec_numeral)
    then show ?thesis by auto
  next
    case 2
    then have "c \<in> set ''abcdef''"
      unfolding n_def by (intro of_char_cases[where lo = 97]) (simp_all add: upt_rec_numeral)
    then show ?thesis by auto
  next
    case 3
    then have "c \<in> set ''ABCDEF''"
      unfolding n_def by (intro of_char_cases[where lo = 65]) (simp_all add: upt_rec_numeral)
    then show ?thesis by auto
  qed
next
  assume "c \<in> set ''0123456789abcdefABCDEF''"
  then show "hex_val c \<noteq> None" by (auto simp: hex_val_def)
qed

lemma hex_val_spec: "hex_val c \<noteq> None \<Longrightarrow> hex_val c = Some (spec_hex_digit c)"
  unfolding hex_val_iff by (auto simp: hex_val_def spec_hex_digit_def hex_digits_def)

lemma hex_decode_map:
  "list_all (\<lambda>c. hex_val c \<noteq> None) s \<Longrightarrow>
   hex_decode s =
     map (\<lambda>i. char_of (16 * spec_hex_digit (s ! (2 * i)) + spec_hex_digit (s ! (2 * i + 1))))
       [0..<length s div 2]"
proof (induction s rule: hex_decode.induct)
  case (1 a b rest)
  have ab: "hex_val a = Some (spec_hex_digit a)" "hex_val b = Some (spec_hex_digit b)"
    using "1.prems" by (simp_all add: hex_val_spec)
  have r: "list_all (\<lambda>c. hex_val c \<noteq> None) rest" using "1.prems" by simp
  have ih: "hex_decode rest =
     map (\<lambda>i. char_of (16 * spec_hex_digit (rest ! (2 * i)) + spec_hex_digit (rest ! (2 * i + 1))))
       [0..<length rest div 2]"
    using "1.IH"[OF refl ab r] .
  show ?case
    by (simp add: ab ih map_upt_Suc del: upt_Suc)
qed simp_all


lemma isHexSha256_iff: "isHexSha256 s = (length s = 64 \<and> set s \<subseteq> set hex_digits)"
  unfolding isHexSha256_def list_all_iff hex_val_iff by auto

lemma decodeBase64Like_spec:
  "decodeBase64Like P s =
     Buffer_from P (trim s)
       (if (CHR ''-'' \<in> set (trim s) \<or> CHR ''_'' \<in> set (trim s))
           \<and> CHR ''+'' \<notin> set (trim s) \<and> CHR ''/'' \<notin> set (trim s)
        then Base64url else Base64)"
proof -
  have a: "list_ex (\<lambda>c. c = CHR ''-'' \<or> c = CHR ''_'') t = (CHR ''-'' \<in> set t \<or> CHR ''_'' \<in> set t)"
    for t by (auto simp: list_ex_iff)
  have b: "list_ex (\<lambda>c. c = CHR ''+'' \<or> c = CHR ''/'') t = (CHR ''+'' \<in> set t \<or> CHR ''/'' \<in> set t)"
    for t by (auto simp: list_ex_iff)
  show ?thesis unfolding decodeBase64Like_def Let_def a b by simp
qed

lemma parseKey_spec:
  "parseKey P s = (case spec_decode P s of Some b \<Rightarrow> Inr b | None \<Rightarrow> Inl InvalidKeyLength)"
proof (cases "isHexSha256 s")
  case True
  then have l: "length s = 64" and h: "list_all (\<lambda>c. hex_val c \<noteq> None) s"
    by (simp_all add: isHexSha256_def)
  have d: "hex_decode s =
     map (\<lambda>i. char_of (16 * spec_hex_digit (s ! (2 * i)) + spec_hex_digit (s ! (2 * i + 1))))
       [0..<32]"
    using hex_decode_map[OF h] l by simp
  have "parseKey P s = Inr (hex_decode s)" using True by (simp add: parseKey_def)
  moreover have "spec_decode P s = Some (hex_decode s)"
    unfolding spec_decode_def isHexSha256_iff[symmetric] d using True by simp
  ultimately show ?thesis by simp
next
  case False
  have "spec_decode P s =
          (if length (decodeBase64Like P s) = 32 then Some (decodeBase64Like P s) else None)"
    unfolding spec_decode_def isHexSha256_iff[symmetric] decodeBase64Like_spec Let_def
    using False by simp
  then show ?thesis using False by (simp add: parseKey_def Let_def)
qed

lemma spec_decode_length: "spec_decode P s = Some b \<Longrightarrow> length b = 32"
  by (auto simp: spec_decode_def Let_def split: if_splits)

lemma try_parse_spec:
  "try_parse P k =
     (case spec_key P k of
        Some b \<Rightarrow> Inr b
      | None \<Rightarrow>
          Inl (case k of
                 JStr s \<Rightarrow> InvalidKeyLength
               | _ \<Rightarrow> if text_isHexSha256 k then InvalidKeyLength else TypeError k))"
proof (cases k)
  case (JStr s)
  show ?thesis
    using spec_decode_length[of P s]
    by (auto simp: JStr try_parse_def spec_key_def parseKey_spec split: option.splits)
qed (simp_all add: try_parse_def spec_key_def)

lemma spec_key_length: "spec_key P k = Some b \<Longrightarrow> length b = 32"
  by (auto simp: spec_key_def spec_decode_length split: json.splits)

lemma keyring_loop_fst:
  "fst (keyring_loop P m) =
     List.map_filter (\<lambda>(v, k). map_option (\<lambda>b. \<lparr>version = v, key = b\<rparr>) (spec_key P k)) m"
  by (induction m)
     (auto simp: List.map_filter_simps try_parse_spec split: prod.splits option.splits)

lemma keyring_loop_snd:
  "snd (keyring_loop P m) =
     List.map_filter
       (\<lambda>(v, k). if spec_key P k = None
                  then Some (spec_log_line v
                         (case k of
                            JStr s \<Rightarrow> ''Invalid key length (expected 32 bytes)''
                          | _ \<Rightarrow> if text_isHexSha256 k
                                 then ''Invalid key length (expected 32 bytes)''
                                 else TypeError_message P k))
                  else None) m"
  by (induction m)
     (auto simp: List.map_filter_simps try_parse_spec spec_log_line_def
           split: prod.splits option.splits json.splits)

lemma keyring_loop_key_length:
  "\<forall>entry \<in> set (fst (keyring_loop P m)). length (key entry) = 32"
  unfolding keyring_loop_fst
  by (auto simp: List.map_filter_def dest: spec_key_length)


text \<open>
  Claim C8. \<^verbatim>\<open>buildKeyring\<close> returns, in the order of the merged map (the static
  entries, an entry of the environment replacing the static one of the same version
  where it stands, then the new entries of the environment), the entries whose value
  is a key in the sense of the specification (\<open>spec_key\<close>: 64 hexadecimal digits, or
  base64, or base64url when the string has \<open>-\<close> or \<open>_\<close> and neither \<open>+\<close> nor
  \<open>/\<close>, decoding to 32 bytes), each with the decoded bytes; every key returned is 32
  bytes long; for every other entry it logs the line with the version and the message
  of the exception, and goes on. The static map is an argument here; the map of the
  source is the empty one.
\<close>

theorem buildKeyring_merged_valid_entries:
  assumes "distinct (map fst static)" and "loadFromEnv P raw = Inr env"
  shows "\<exists>keyring logs.
           buildKeyring_from P static raw = Inr (keyring, logs)
         \<and> keyring =
             List.map_filter
               (\<lambda>(v, k). map_option (\<lambda>b. \<lparr>version = v, key = b\<rparr>) (spec_key P k))
               (spec_merged static env)
         \<and> (\<forall>entry \<in> set keyring. length (key entry) = 32)
         \<and> logs =
             List.map_filter
               (\<lambda>(v, k). if spec_key P k = None
                          then Some (spec_log_line v
                                 (case k of
                                    JStr s \<Rightarrow> ''Invalid key length (expected 32 bytes)''
                                  | _ \<Rightarrow> if text_isHexSha256 k
                                         then ''Invalid key length (expected 32 bytes)''
                                         else TypeError_message P k))
                          else None)
               (spec_merged static env)
         \<and> buildKeyring P raw = buildKeyring_from P [] raw"
proof -
  have m: "merge_maps static env = spec_merged static env"
    using assms(1) loadFromEnv_distinct[OF assms(2)] by (rule merge_maps_spec)
  obtain keyring logs where kl: "keyring_loop P (spec_merged static env) = (keyring, logs)"
    by (cases "keyring_loop P (spec_merged static env)")
  have b: "buildKeyring_from P static raw = Inr (keyring, logs)"
    by (simp add: buildKeyring_from_def assms(2) m kl)
  have k: "keyring = fst (keyring_loop P (spec_merged static env))"
    and l: "logs = snd (keyring_loop P (spec_merged static env))"
    by (simp_all add: kl)
  have len: "\<forall>entry \<in> set keyring. length (key entry) = 32"
    unfolding k by (rule keyring_loop_key_length)
  have e: "buildKeyring P raw = buildKeyring_from P [] raw"
    by (simp add: buildKeyring_def LIVE_LINK_HASH_KEYS_def new_Map_def)
  show ?thesis
    using b len e k[unfolded keyring_loop_fst] l[unfolded keyring_loop_snd]
    by (intro exI[of _ keyring] exI[of _ logs] conjI)
qed

theorem buildKeyring_witness:
  "distinct (map fst [(''a'', JStr hexA), (''b'', JNull)])
   \<and> loadFromEnv P0 (Some ''E'')
       = Inr [(''b'', JStr ''0123456789abcdef0123456789abcd-_''), (''c'', JStr ''x''), (''d'', JNull)]
   \<and> (\<exists>keyring logs.
         buildKeyring_from P0 [(''a'', JStr hexA), (''b'', JNull)] (Some ''E'') = Inr (keyring, logs)
       \<and> map version keyring = [''a'', ''b'']
       \<and> map (\<lambda>entry. map of_char (key entry)) keyring
           = [[1, 35, 69, 103, 137, 171, 205, 239, 1, 35, 69, 103, 137, 171, 205, 239,
               1, 35, 69, 103, 137, 171, 205, 239, 1, 35, 69, 103, 137, 171, 205, 239 :: nat],
              map of_char ''_-dcba9876543210fedcba9876543210'']
       \<and> logs = [spec_log_line ''c'' ''Invalid key length (expected 32 bytes)'',
                  spec_log_line ''d'' ''not a string''])"
proof -
  let ?static = "[(''a'', JStr hexA), (''b'', JNull)]"
  let ?env = "[(''b'', JStr ''0123456789abcdef0123456789abcd-_''), (''c'', JStr ''x''), (''d'', JNull)]"
  have h1: "distinct (map fst ?static)" by simp
  have h2: "loadFromEnv P0 (Some ''E'') = Inr ?env"
    by (simp add: loadFromEnv_def P0_def new_Map_def)
  have m: "spec_merged ?static ?env
             = [(''a'', JStr hexA), (''b'', JStr ''0123456789abcdef0123456789abcd-_''),
                (''c'', JStr ''x''), (''d'', JNull)]"
    by (simp add: spec_merged_def)
  have ka: "map_option (map of_char) (spec_key P0 (JStr hexA))
              = Some [1, 35, 69, 103, 137, 171, 205, 239, 1, 35, 69, 103, 137, 171, 205, 239,
                      1, 35, 69, 103, 137, 171, 205, 239, 1, 35, 69, 103, 137, 171, 205, 239 :: nat]"
  proof -
    have u: "[0..<32] = [0, 1, 2, 3, 4, 5, 6, 7, 8, 9, 10, 11, 12, 13, 14, 15, 16, 17, 18, 19,
                        20, 21, 22, 23, 24, 25, 26, 27, 28, 29, 30, 31 :: nat]"
      by (simp add: upt_rec)
    show ?thesis
      unfolding spec_key_def spec_decode_def u
      by (simp add: hexA_def hex_digits_def spec_hex_digit_def)
  qed
  have kb: "spec_key P0 (JStr ''0123456789abcdef0123456789abcd-_'')
              = Some ''_-dcba9876543210fedcba9876543210''"
    by (simp add: spec_key_def spec_decode_def hex_digits_def trim_def wide_spaces2_def
          wide_spaces3_def is_space_def P0_def)
  have kc: "spec_key P0 (JStr ''x'') = None"
    by (simp add: spec_key_def spec_decode_def hex_digits_def trim_def wide_spaces2_def
          wide_spaces3_def is_space_def P0_def)
  have kd: "spec_key P0 JNull = None" by (simp add: spec_key_def)
  have t: "TypeError_message P0 JNull = ''not a string''" by (simp add: P0_def)
  from buildKeyring_merged_valid_entries[OF h1 h2] obtain keyring logs where
    r: "buildKeyring_from P0 ?static (Some ''E'') = Inr (keyring, logs)"
       "keyring = List.map_filter
               (\<lambda>(v, k). map_option (\<lambda>b. \<lparr>version = v, key = b\<rparr>) (spec_key P0 k))
               (spec_merged ?static ?env)"
       "logs = List.map_filter
               (\<lambda>(v, k). if spec_key P0 k = None
                          then Some (spec_log_line v
                                 (case k of
                                    JStr s \<Rightarrow> ''Invalid key length (expected 32 bytes)''
                                  | _ \<Rightarrow> if text_isHexSha256 k
                                         then ''Invalid key length (expected 32 bytes)''
                                         else TypeError_message P0 k))
                          else None)
               (spec_merged ?static ?env)"
    by blast
  obtain a where a: "spec_key P0 (JStr hexA) = Some a"
    using ka by (cases "spec_key P0 (JStr hexA)") simp_all
  have a': "map of_char a
             = [1, 35, 69, 103, 137, 171, 205, 239, 1, 35, 69, 103, 137, 171, 205, 239,
                1, 35, 69, 103, 137, 171, 205, 239, 1, 35, 69, 103, 137, 171, 205, 239 :: nat]"
    using ka a by simp
  have k: "keyring = [\<lparr>version = ''a'', key = a\<rparr>,
                      \<lparr>version = ''b'', key = ''_-dcba9876543210fedcba9876543210''\<rparr>]"
    unfolding r(2) m by (simp add: List.map_filter_simps a kb kc kd)
  have l: "logs = [spec_log_line ''c'' ''Invalid key length (expected 32 bytes)'',
                   spec_log_line ''d'' ''not a string'']"
    unfolding r(3) m by (simp add: List.map_filter_simps a kb kc kd t)
  have v1: "map version keyring = [''a'', ''b'']" by (simp add: k)
  have v2: "map (\<lambda>entry. map of_char (key entry)) keyring
           = [[1, 35, 69, 103, 137, 171, 205, 239, 1, 35, 69, 103, 137, 171, 205, 239,
               1, 35, 69, 103, 137, 171, 205, 239, 1, 35, 69, 103, 137, 171, 205, 239 :: nat],
              map of_char ''_-dcba9876543210fedcba9876543210'']"
    unfolding k using a' by simp
  from r(1) v1 v2 l
  have "\<exists>keyring logs.
         buildKeyring_from P0 ?static (Some ''E'') = Inr (keyring, logs)
       \<and> map version keyring = [''a'', ''b'']
       \<and> map (\<lambda>entry. map of_char (key entry)) keyring
           = [[1, 35, 69, 103, 137, 171, 205, 239, 1, 35, 69, 103, 137, 171, 205, 239,
               1, 35, 69, 103, 137, 171, 205, 239, 1, 35, 69, 103, 137, 171, 205, 239 :: nat],
              map of_char ''_-dcba9876543210fedcba9876543210'']
       \<and> logs = [spec_log_line ''c'' ''Invalid key length (expected 32 bytes)'',
                  spec_log_line ''d'' ''not a string'']"
    by (intro exI[of _ keyring] exI[of _ logs] conjI)
  with h1 h2 show ?thesis by (intro conjI)
qed

section \<open>The telemetry validator\<close>

lemma frames_loop_Cons:
  "frames_loop cfg (f # rest) t =
     (case frames_loop cfg [f] t of
        (None, t1) \<Rightarrow> frames_loop cfg rest t1
      | (Some r, t1) \<Rightarrow> (Some r, t1))"
  by (simp add: Let_def split: option.splits json.splits number.splits prod.splits)

lemma frames_loop_skip:
  "\<forall>kvs. f \<noteq> JObj kvs \<Longrightarrow> frames_loop cfg (f # rest) t = frames_loop cfg rest t"
  by (cases f) simp_all

lemma frames_loop_missing:
  "get_prop f ''x'' = None \<or> get_prop f ''y'' = None \<Longrightarrow>
   frames_loop cfg (f # rest) t = frames_loop cfg rest t"
  by (auto split: option.splits json.splits number.splits)

lemma frames_loop_finite:
  assumes "get_prop f ''x'' = Some (JNum (Finite xv))"
      and "get_prop f ''y'' = Some (JNum (Finite yv))"
  shows "frames_loop cfg (f # rest) t =
     (if \<bar>xv\<bar> > maxAbsCoord cfg \<or> \<bar>yv\<bar> > maxAbsCoord cfg
      then (Some ''Impossible coordinates'', t)
      else if (\<exists>lx ly. lastCoord t = Some (lx, ly)
                 \<and> (js_gt (js_abs (js_sub (Finite xv) (Finite lx))) (Finite (maxCoordDelta cfg))
                    \<or> js_gt (js_abs (js_sub (Finite yv) (Finite ly))) (Finite (maxCoordDelta cfg))))
      then (Some ''Impossible movement'', t)
      else frames_loop cfg rest (t\<lparr>lastCoord := Some (xv, yv)\<rparr>))"
proof -
  obtain kvs where "f = JObj kvs" using assms(1) by (cases f) simp_all
  then show ?thesis using assms by (auto simp: Let_def split: option.splits)
qed

lemma frames_loop_single:
  "frames_loop cfg [f] t = (r, t') \<Longrightarrow>
     (r = None \<and> t' = t\<lparr>lastCoord := lastCoord t'\<rparr>)
   \<or> (r \<in> Some ` {''Invalid coordinates'', ''Impossible coordinates'', ''Impossible movement''}
      \<and> t' = t)"
  by (auto simp: Let_def split: if_splits option.splits json.splits number.splits)

lemma frames_loop_fields:
  "frames_loop cfg fs t = (r, t') \<Longrightarrow>
   expectedSeq t' = expectedSeq t \<and> lastAt t' = lastAt t \<and> lastPct t' = lastPct t"
proof (induction fs arbitrary: t)
  case Nil
  then show ?case by simp
next
  case (Cons f fs)
  obtain r1 t1 where s: "frames_loop cfg [f] t = (r1, t1)" by (cases "frames_loop cfg [f] t")
  have f1: "expectedSeq t1 = expectedSeq t \<and> lastAt t1 = lastAt t \<and> lastPct t1 = lastPct t"
    using frames_loop_single[OF s]
    by (metis telemetry_rec.select_convs(1,2,3) telemetry_rec.surjective telemetry_rec.update_convs(4))
  show ?case
  proof (cases r1)
    case None
    then have "frames_loop cfg fs t1 = (r, t')"
      using Cons.prems s by (simp add: frames_loop_Cons[of cfg f fs t] del: frames_loop.simps)
    from Cons.IH[OF this] f1 show ?thesis by simp
  next
    case (Some a)
    then have "t' = t1"
      using Cons.prems s by (simp add: frames_loop_Cons[of cfg f fs t] del: frames_loop.simps)
    then show ?thesis using f1 by simp
  qed
qed

lemma frames_loop_kill:
  "frames_loop cfg fs t = (Some r, t') \<Longrightarrow>
   \<exists>pre f post. fs = pre @ f # post \<and> frames_loop cfg pre t = (None, t')
                \<and> frames_loop cfg [f] t' = (Some r, t')"
proof (induction fs arbitrary: t)
  case Nil
  then show ?case by simp
next
  case (Cons f fs)
  obtain r1 t1 where s: "frames_loop cfg [f] t = (r1, t1)" by (cases "frames_loop cfg [f] t")
  show ?case
  proof (cases r1)
    case None
    then have "frames_loop cfg fs t1 = (Some r, t')"
      using Cons.prems s by (simp add: frames_loop_Cons[of cfg f fs t] del: frames_loop.simps)
    from Cons.IH[OF this] obtain pre g post where
      p: "fs = pre @ g # post" "frames_loop cfg pre t1 = (None, t')"
         "frames_loop cfg [g] t' = (Some r, t')" by blast
    have "frames_loop cfg (f # pre) t = (None, t')"
      using s None p(2) by (simp add: frames_loop_Cons[of cfg f pre t] del: frames_loop.simps)
    then show ?thesis using p(1,3) by (metis append_Cons)
  next
    case (Some a)
    then have e: "t' = t1" "r = a"
      using Cons.prems s by (simp_all add: frames_loop_Cons[of cfg f fs t] del: frames_loop.simps)
    have "t1 = t" using frames_loop_single[OF s] Some by auto
    then have "frames_loop cfg [] t = (None, t')" "frames_loop cfg [f] t' = (Some r, t')"
      using e s Some by simp_all
    then show ?thesis by (metis append_Nil)
  qed
qed

lemma frames_loop_reason:
  "frames_loop cfg fs t = (Some r, t') \<Longrightarrow>
   r \<in> {''Invalid coordinates'', ''Impossible coordinates'', ''Impossible movement''}"
proof -
  assume "frames_loop cfg fs t = (Some r, t')"
  from frames_loop_kill[OF this] obtain f where "frames_loop cfg [f] t' = (Some r, t')" by blast
  from frames_loop_single[OF this] show ?thesis by auto
qed

lemma frames_loop_all_skipped:
  "\<forall>f \<in> set fs. \<forall>kvs. f \<noteq> JObj kvs \<Longrightarrow> frames_loop cfg fs t = (None, t)"
  by (induction fs) (simp_all add: frames_loop_skip del: frames_loop.simps(2))

lemma rate_check_reason:
  "rate_check cfg now la lp cur = Some r \<Longrightarrow> r \<in> {''Invalid time delta'', ''Speedhack (pct jump)''}"
  by (auto simp: rate_check_def Let_def split: if_splits)


lemma default_config:
  "LIVE_LINK_CONFIG P Map.empty =
     \<lparr>handshakeTimeoutMs = 5000, maxMessageBytes = 262144, maxFramesPerChunk = 600,
      maxPctPerSecond = 20, maxPctBurst = 5, maxAbsCoord = 10000000, maxCoordDelta = 20000\<rparr>"
  by (simp add: LIVE_LINK_CONFIG_def readNumberEnv_def)

lemma telemetry_branch_passed:
  assumes "TelemetrySchema_parse d = Inr m" and "seq m = expectedSeq t"
  shows "telemetry_branch cfg now d t =
     (case (case (lastAt t, lastPct t) of
              (Some la, Some lp) \<Rightarrow> rate_check cfg now la lp (current_pct m)
            | _ \<Rightarrow> None) of
        Some r \<Rightarrow> (Some r, t\<lparr>expectedSeq := expectedSeq t + 1\<rparr>)
      | None \<Rightarrow>
          if real (length (frames m)) > maxFramesPerChunk cfg
          then (Some ''Too many frames'',
                t\<lparr>expectedSeq := expectedSeq t + 1, lastAt := Some now,
                  lastPct := Some (current_pct m)\<rparr>)
          else frames_loop cfg (frames m)
                 (t\<lparr>expectedSeq := expectedSeq t + 1, lastAt := Some now,
                    lastPct := Some (current_pct m)\<rparr>))"
  using assms
  by (simp add: telemetry_branch_def Let_def split: option.splits del: frames_loop.simps)

subsection \<open>Baselines of a rejected message\<close>

text \<open>
  Claim C2 as stated fails: \<open>lastAt\<close> and \<open>lastPct\<close> are written once the
  progress-rate check has passed, before the batch size and the frames are examined.
  Under the default configuration, the second frame of this batch moves too far; the
  message is killed, and \<open>lastAt\<close> and \<open>lastPct\<close> hold its time and percent.
\<close>

theorem rejected_batch_advances_time_and_percent:
  "telemetry_branch (LIVE_LINK_CONFIG P0 Map.empty) 1000
     (JObj [(''seq'', JNum (Finite 2)), (''current_pct'', JNum (Finite 12)),
            (''frames'', JArr [JObj [(''x'', JNum (Finite 5)), (''y'', JNum (Finite 5))],
                              JObj [(''x'', JNum (Finite 30000)), (''y'', JNum (Finite 5))]])])
     \<lparr>expectedSeq = 2, lastAt = Some 0, lastPct = Some 10, lastCoord = Some (0, 0)\<rparr>
   = (Some ''Impossible movement'',
      \<lparr>expectedSeq = 3, lastAt = Some 1000, lastPct = Some 12, lastCoord = Some (5, 5)\<rparr>)"
  by (simp add: telemetry_branch_def TelemetrySchema_parse_def rate_check_def default_config
        js_sub_def js_gt_def js_ge_def)


text \<open>
  Claim C2, amended. A message killed by the schema, the sequence check, the time delta
  or the progress rate leaves \<open>lastAt\<close>, \<open>lastPct\<close> and \<open>lastCoord\<close> as they
  were. A message killed by the batch size or at a frame has \<open>lastAt\<close> and
  \<open>lastPct\<close> set to its own time and percent; \<open>lastCoord\<close> is then what the
  frames before the failing one left (unchanged for the batch size).
\<close>

theorem rejected_message_baselines:
  assumes "telemetry_branch cfg now d t = (Some reason, t')"
  shows "(reason \<in> {''Bad telemetry'', ''Sequence mismatch'', ''Invalid time delta'',
                    ''Speedhack (pct jump)''}
          \<and> lastAt t' = lastAt t \<and> lastPct t' = lastPct t \<and> lastCoord t' = lastCoord t)
       \<or> (\<exists>m. TelemetrySchema_parse d = Inr m
             \<and> lastAt t' = Some now \<and> lastPct t' = Some (current_pct m)
             \<and> (reason = ''Too many frames'' \<and> lastCoord t' = lastCoord t
                \<or> reason \<in> {''Invalid coordinates'', ''Impossible coordinates'',
                              ''Impossible movement''}
                  \<and> (\<exists>pre f post.
                        frames m = pre @ f # post
                      \<and> frames_loop cfg pre
                          (t\<lparr>expectedSeq := expectedSeq t + 1, lastAt := Some now,
                             lastPct := Some (current_pct m)\<rparr>) = (None, t')
                      \<and> frames_loop cfg [f] t' = (Some reason, t'))))"
proof (cases "TelemetrySchema_parse d")
  case (Inl e)
  then have "reason = ''Bad telemetry''" "t' = t"
    using assms by (simp_all add: telemetry_branch_def)
  then have "reason \<in> {''Bad telemetry'', ''Sequence mismatch'', ''Invalid time delta'',
                    ''Speedhack (pct jump)''}
          \<and> lastAt t' = lastAt t \<and> lastPct t' = lastPct t \<and> lastCoord t' = lastCoord t"
    by simp
  then show ?thesis by (rule disjI1)
next
  case (Inr m)
  show ?thesis
  proof (cases "seq m = expectedSeq t")
    case False
    then have "reason = ''Sequence mismatch''" "t' = t"
      using assms Inr by (simp_all add: telemetry_branch_def)
    then have "reason \<in> {''Bad telemetry'', ''Sequence mismatch'', ''Invalid time delta'',
                    ''Speedhack (pct jump)''}
          \<and> lastAt t' = lastAt t \<and> lastPct t' = lastPct t \<and> lastCoord t' = lastCoord t"
      by simp
    then show ?thesis by (rule disjI1)
  next
    case True
    define rate where "rate = (case (lastAt t, lastPct t) of
                          (Some la, Some lp) \<Rightarrow> rate_check cfg now la lp (current_pct m)
                        | _ \<Rightarrow> None)"
    define t2 where "t2 = t\<lparr>expectedSeq := expectedSeq t + 1, lastAt := Some now,
                             lastPct := Some (current_pct m)\<rparr>"
    have tb: "telemetry_branch cfg now d t =
        (case rate of Some r \<Rightarrow> (Some r, t\<lparr>expectedSeq := expectedSeq t + 1\<rparr>)
         | None \<Rightarrow> if real (length (frames m)) > maxFramesPerChunk cfg
                   then (Some ''Too many frames'', t2) else frames_loop cfg (frames m) t2)"
      using Inr True
      by (simp add: telemetry_branch_def rate_def t2_def Let_def split: option.splits
               del: frames_loop.simps)
    show ?thesis
    proof (cases rate)
      case (Some r)
      then obtain la lp where "rate_check cfg now la lp (current_pct m) = Some r"
        by (auto simp: rate_def split: option.splits)
      then have "r \<in> {''Invalid time delta'', ''Speedhack (pct jump)''}"
        by (rule rate_check_reason)
      moreover have "reason = r" "t' = t\<lparr>expectedSeq := expectedSeq t + 1\<rparr>"
        using assms tb Some by simp_all
      ultimately have "reason \<in> {''Bad telemetry'', ''Sequence mismatch'', ''Invalid time delta'',
                    ''Speedhack (pct jump)''}
          \<and> lastAt t' = lastAt t \<and> lastPct t' = lastPct t \<and> lastCoord t' = lastCoord t"
        by simp
      then show ?thesis by (rule disjI1)
    next
      case None
      have "\<exists>m. TelemetrySchema_parse d = Inr m
             \<and> lastAt t' = Some now \<and> lastPct t' = Some (current_pct m)
             \<and> (reason = ''Too many frames'' \<and> lastCoord t' = lastCoord t
                \<or> reason \<in> {''Invalid coordinates'', ''Impossible coordinates'',
                              ''Impossible movement''}
                  \<and> (\<exists>pre f post.
                        frames m = pre @ f # post
                      \<and> frames_loop cfg pre
                          (t\<lparr>expectedSeq := expectedSeq t + 1, lastAt := Some now,
                             lastPct := Some (current_pct m)\<rparr>) = (None, t')
                      \<and> frames_loop cfg [f] t' = (Some reason, t')))"
      proof (cases "real (length (frames m)) > maxFramesPerChunk cfg")
        case True
        then have r: "reason = ''Too many frames''" and t: "t' = t2"
          using assms tb None by simp_all
        have "lastAt t' = Some now" "lastPct t' = Some (current_pct m)"
             "lastCoord t' = lastCoord t"
          by (simp_all add: t t2_def)
        with r Inr show ?thesis by (intro exI[of _ m] conjI disjI1)
      next
        case False
        then have fl: "frames_loop cfg (frames m) t2 = (Some reason, t')"
          using assms tb None by simp
        from frames_loop_kill[OF fl] obtain pre f post where
          p: "frames m = pre @ f # post" "frames_loop cfg pre t2 = (None, t')"
             "frames_loop cfg [f] t' = (Some reason, t')" by blast
        have a: "lastAt t' = Some now" "lastPct t' = Some (current_pct m)"
          using frames_loop_fields[OF fl] by (simp_all add: t2_def)
        have b: "reason \<in> {''Invalid coordinates'', ''Impossible coordinates'',
                              ''Impossible movement''}"
          using frames_loop_reason[OF fl] .
        from Inr a b p[unfolded t2_def] show ?thesis
          by (intro exI[of _ m] conjI disjI2 exI[of _ pre] exI[of _ f] exI[of _ post])
      qed
      then show ?thesis by (rule disjI2)
    qed
  qed
qed

theorem rejected_message_baselines_witness:
  "telemetry_branch (LIVE_LINK_CONFIG P0 Map.empty) 1000
     (JObj [(''seq'', JNum (Finite 2)), (''current_pct'', JNum (Finite 12)),
            (''frames'', JArr [JObj [(''x'', JNum (Finite 30000)), (''y'', JNum (Finite 5))]])])
     \<lparr>expectedSeq = 2, lastAt = Some 0, lastPct = Some 10, lastCoord = Some (0, 0)\<rparr>
   = (Some ''Impossible movement'',
      \<lparr>expectedSeq = 3, lastAt = Some 1000, lastPct = Some 12, lastCoord = Some (0, 0)\<rparr>)
   \<and> (\<exists>m. TelemetrySchema_parse
             (JObj [(''seq'', JNum (Finite 2)), (''current_pct'', JNum (Finite 12)),
                    (''frames'', JArr [JObj [(''x'', JNum (Finite 30000)), (''y'', JNum (Finite 5))]])])
           = Inr m \<and> current_pct m = 12)"
proof -
  let ?d = "JObj [(''seq'', JNum (Finite 2)), (''current_pct'', JNum (Finite 12)),
            (''frames'', JArr [JObj [(''x'', JNum (Finite 30000)), (''y'', JNum (Finite 5))]])]"
  let ?t = "\<lparr>expectedSeq = 2, lastAt = Some 0, lastPct = Some 10, lastCoord = Some (0, 0)\<rparr>"
  let ?t' = "\<lparr>expectedSeq = 3, lastAt = Some 1000, lastPct = Some 12, lastCoord = Some (0, 0)\<rparr>"
  have h: "telemetry_branch (LIVE_LINK_CONFIG P0 Map.empty) 1000 ?d ?t
             = (Some ''Impossible movement'', ?t')"
    by (simp add: telemetry_branch_def TelemetrySchema_parse_def rate_check_def default_config
          js_sub_def js_gt_def js_ge_def)
  have "lastAt ?t' \<noteq> lastAt ?t" by simp
  with rejected_message_baselines[OF h]
  obtain m where "TelemetrySchema_parse ?d = Inr m" "lastPct ?t' = Some (current_pct m)"
    by blast
  then have "\<exists>m. TelemetrySchema_parse ?d = Inr m \<and> current_pct m = 12" by simp
  with h show ?thesis by (rule conjI)
qed

subsection \<open>The progress-rate check\<close>

text \<open>
  Claim C6 as stated fails for a delta of zero: the check applies to every delta that
  is not negative, so a delta of zero is killed when the allowance
  \<open>maxPctBurst + maxPctPerSecond * dt\<close> is negative. Here the burst is configured as
  \<open>-1\<close>, 10 ms have passed and the percent has not moved.
\<close>

theorem zero_delta_killed_under_negative_burst:
  "telemetry_branch (LIVE_LINK_CONFIG P0 [''LIVE_LINK_MAX_PCT_BURST'' \<mapsto> ''-1'']) 10
     (JObj [(''seq'', JNum (Finite 2)), (''current_pct'', JNum (Finite 10)), (''frames'', JArr [])])
     \<lparr>expectedSeq = 2, lastAt = Some 0, lastPct = Some 10, lastCoord = None\<rparr>
   = (Some ''Speedhack (pct jump)'',
      \<lparr>expectedSeq = 3, lastAt = Some 0, lastPct = Some 10, lastCoord = None\<rparr>)"
  by (simp add: telemetry_branch_def TelemetrySchema_parse_def rate_check_def
        LIVE_LINK_CONFIG_def readNumberEnv_def P0_def js_sub_def js_gt_def js_ge_def
        rounding_examples)


text \<open>
  Claim C6, amended. For a message that is not the first, when the elapsed seconds the
  code computes (\<open>(now - lastAt) / 1000\<close>, rounded) are a positive number \<open>dt\<close>: the
  code computes the delta \<open>current_pct - lastPct\<close> and the allowance
  \<open>maxPctBurst + maxPctPerSecond * dt\<close> in double precision, each operation rounded.
  A negative delta passes the progress-rate check; a delta that is zero or positive
  passes exactly when it does not exceed the allowance (a delta equal to it passes),
  so a delta of zero passes whenever the allowance is not negative; and the message is
  killed as a speedhack exactly when the check fails. Where the three operations are
  exact, the comparison is that of the real numbers.
\<close>

theorem rate_check_boundary:
  assumes "js_div (js_sub (Finite (real_of_int now)) (Finite (real_of_int la))) (Finite 1000)
             = Finite dt"
      and "0 < dt"
  shows "rate_check cfg now la lp cur =
           (if js_lt (js_sub (Finite cur) (Finite lp)) (Finite 0)
               \<or> js_le (js_sub (Finite cur) (Finite lp))
                    (js_add (Finite (maxPctBurst cfg)) (js_mul (Finite (maxPctPerSecond cfg)) (Finite dt)))
            then None else Some ''Speedhack (pct jump)'')
       \<and> (js_sub (Finite cur) (Finite lp) = Finite 0
            \<and> js_le (Finite 0)
                 (js_add (Finite (maxPctBurst cfg)) (js_mul (Finite (maxPctPerSecond cfg)) (Finite dt)))
          \<longrightarrow> rate_check cfg now la lp cur = None)
       \<and> (round_double (cur - lp) = Finite (cur - lp)
            \<and> round_double (maxPctPerSecond cfg * dt) = Finite (maxPctPerSecond cfg * dt)
            \<and> round_double (maxPctBurst cfg + maxPctPerSecond cfg * dt)
                = Finite (maxPctBurst cfg + maxPctPerSecond cfg * dt)
          \<longrightarrow> rate_check cfg now la lp cur =
                (if cur - lp < 0 \<or> cur - lp \<le> maxPctBurst cfg + maxPctPerSecond cfg * dt
                 then None else Some ''Speedhack (pct jump)''))
       \<and> (\<forall>d m t. TelemetrySchema_parse d = Inr m \<and> seq m = expectedSeq t
                  \<and> lastAt t = Some la \<and> lastPct t = Some lp \<and> current_pct m = cur
            \<longrightarrow> (fst (telemetry_branch cfg now d t) = Some ''Speedhack (pct jump)'')
                = (rate_check cfg now la lp cur \<noteq> None))"
proof -
  define delta where "delta = js_sub (Finite cur) (Finite lp)"
  define allowed where
    "allowed = js_add (Finite (maxPctBurst cfg)) (js_mul (Finite (maxPctPerSecond cfg)) (Finite dt))"
  have dn: "delta \<noteq> NaN" unfolding delta_def by simp
  have an: "allowed \<noteq> NaN" unfolding allowed_def by (rule js_add_mul_not_NaN)
  have zn: "Finite 0 \<noteq> NaN" by simp
  have code: "rate_check cfg now la lp cur =
           (if js_ge delta (Finite 0) \<and> js_gt delta allowed
            then Some ''Speedhack (pct jump)'' else None)"
    using assms by (simp add: rate_check_def Let_def delta_def allowed_def)
  have r: "rate_check cfg now la lp cur =
           (if js_lt delta (Finite 0) \<or> js_le delta allowed
            then None else Some ''Speedhack (pct jump)'')"
    unfolding code not_js_gt[OF dn an, symmetric] not_js_ge[OF dn zn, symmetric] by simp
  have z: "delta = Finite 0 \<and> js_le (Finite 0) allowed \<longrightarrow> rate_check cfg now la lp cur = None"
    unfolding r by auto
  have x: "round_double (cur - lp) = Finite (cur - lp)
            \<and> round_double (maxPctPerSecond cfg * dt) = Finite (maxPctPerSecond cfg * dt)
            \<and> round_double (maxPctBurst cfg + maxPctPerSecond cfg * dt)
                = Finite (maxPctBurst cfg + maxPctPerSecond cfg * dt)
          \<longrightarrow> rate_check cfg now la lp cur =
                (if cur - lp < 0 \<or> cur - lp \<le> maxPctBurst cfg + maxPctPerSecond cfg * dt
                 then None else Some ''Speedhack (pct jump)'')"
    unfolding r delta_def allowed_def js_sub_def by simp
  have b: "(fst (telemetry_branch cfg now d t) = Some ''Speedhack (pct jump)'')
                = (rate_check cfg now la lp cur \<noteq> None)"
    if h: "TelemetrySchema_parse d = Inr m" "seq m = expectedSeq t"
          "lastAt t = Some la" "lastPct t = Some lp" "current_pct m = cur" for d m t
  proof (cases "rate_check cfg now la lp cur")
    case (Some x)
    then have "x = ''Speedhack (pct jump)''" by (simp add: r split: if_splits)
    then show ?thesis using Some h by (simp add: telemetry_branch_passed[OF h(1,2)])
  next
    case None
    define t2 where "t2 = t\<lparr>expectedSeq := expectedSeq t + 1, lastAt := Some now,
                    lastPct := Some (current_pct m)\<rparr>"
    have tb: "telemetry_branch cfg now d t =
          (if real (length (frames m)) > maxFramesPerChunk cfg
          then (Some ''Too many frames'', t2) else frames_loop cfg (frames m) t2)"
      using None h by (simp add: telemetry_branch_passed[OF h(1,2)] t2_def)
    have "fst (frames_loop cfg (frames m) t2) \<noteq> Some ''Speedhack (pct jump)''"
    proof
      assume a: "fst (frames_loop cfg (frames m) t2) = Some ''Speedhack (pct jump)''"
      then obtain t' where "frames_loop cfg (frames m) t2 = (Some ''Speedhack (pct jump)'', t')"
        by (cases "frames_loop cfg (frames m) t2") simp
      from frames_loop_reason[OF this] show False by simp
    qed
    then show ?thesis using None by (simp add: tb)
  qed
  show ?thesis
    using r z x b unfolding delta_def allowed_def by blast
qed

text \<open>
  The witness is the default configuration after 10 ms, from 0 percent: the percent
  5.2 (the double nearest to it) equals the allowance the code computes and passes,
  where the exact sum of the real numbers would be smaller; the percent 6 is killed.
\<close>

theorem rate_check_boundary_witness:
  "js_div (js_sub (Finite (real_of_int 10)) (Finite (real_of_int 0))) (Finite 1000)
     = Finite (5764607523034235 / 576460752303423488)
   \<and> (0::real) < 5764607523034235 / 576460752303423488
   \<and> rate_check (LIVE_LINK_CONFIG P0 Map.empty) 10 0 0 (5854679515581645 / 1125899906842624)
       = None
   \<and> rate_check (LIVE_LINK_CONFIG P0 Map.empty) 10 0 0 6 = Some ''Speedhack (pct jump)''"
proof -
  have h: "js_div (js_sub (Finite (real_of_int 10)) (Finite (real_of_int 0))) (Finite 1000)
             = Finite (5764607523034235 / 576460752303423488)"
    by (simp add: js_sub_def rounding_examples)
  have p: "(0::real) < 5764607523034235 / 576460752303423488" by simp
  have allowed: "js_add (Finite 5) (js_mul (Finite 20) (Finite (5764607523034235 / 576460752303423488)))
                   = Finite (5854679515581645 / 1125899906842624)"
    by (simp add: rounding_examples)
  have a: "rate_check (LIVE_LINK_CONFIG P0 Map.empty) 10 0 0 (5854679515581645 / 1125899906842624)
             = None"
    unfolding rate_check_boundary[where cfg = "LIVE_LINK_CONFIG P0 Map.empty" and lp = 0
        and cur = "5854679515581645 / 1125899906842624", OF h p, THEN conjunct1]
    by (simp add: default_config allowed js_sub_def rounding_examples)
  have b: "rate_check (LIVE_LINK_CONFIG P0 Map.empty) 10 0 0 6 = Some ''Speedhack (pct jump)''"
    unfolding rate_check_boundary[where cfg = "LIVE_LINK_CONFIG P0 Map.empty" and lp = 0
        and cur = 6, OF h p, THEN conjunct1]
    by (simp add: default_config js_sub_def rounding_examples)
  from h p a b show ?thesis by (intro conjI)
qed

subsection \<open>The frames\<close>

text \<open>
  Claim C7. A frame with \<open>x\<close> and \<open>y\<close> present as finite numbers passes exactly when
  both absolute values are at most \<open>maxAbsCoord\<close> and, when there is a coordinate
  baseline, both absolute differences to it are at most \<open>maxCoordDelta\<close> (the bounds
  themselves pass). The differences are the ones the code computes, \<open>Math.abs(x - lastCoord.x)\<close>
  in double precision; where the subtraction is exact they are the differences of the
  real numbers. A frame that passes sets the baseline to its own coordinates and
  the rest of the batch is checked from there; so the frame after a passing frame is
  compared with that frame, whatever the baseline before the batch was. A frame that
  fails ends the loop with the state as it was.
\<close>

theorem frame_plausibility:
  assumes "get_prop f ''x'' = Some (JNum (Finite xv))"
      and "get_prop f ''y'' = Some (JNum (Finite yv))"
  shows "frames_loop cfg (f # rest) t =
           (if \<bar>xv\<bar> \<le> maxAbsCoord cfg \<and> \<bar>yv\<bar> \<le> maxAbsCoord cfg
               \<and> (case lastCoord t of
                      None \<Rightarrow> True
                    | Some (lx, ly) \<Rightarrow>
                        js_le (js_abs (js_sub (Finite xv) (Finite lx))) (Finite (maxCoordDelta cfg))
                      \<and> js_le (js_abs (js_sub (Finite yv) (Finite ly))) (Finite (maxCoordDelta cfg)))
            then frames_loop cfg rest (t\<lparr>lastCoord := Some (xv, yv)\<rparr>)
            else (Some (if \<bar>xv\<bar> \<le> maxAbsCoord cfg \<and> \<bar>yv\<bar> \<le> maxAbsCoord cfg
                        then ''Impossible movement'' else ''Impossible coordinates''), t))
       \<and> (\<forall>lx ly. lastCoord t = Some (lx, ly)
                 \<and> round_double (xv - lx) = Finite (xv - lx)
                 \<and> round_double (yv - ly) = Finite (yv - ly)
           \<longrightarrow> frames_loop cfg (f # rest) t =
                 (if \<bar>xv\<bar> \<le> maxAbsCoord cfg \<and> \<bar>yv\<bar> \<le> maxAbsCoord cfg
                     \<and> \<bar>xv - lx\<bar> \<le> maxCoordDelta cfg \<and> \<bar>yv - ly\<bar> \<le> maxCoordDelta cfg
                  then frames_loop cfg rest (t\<lparr>lastCoord := Some (xv, yv)\<rparr>)
                  else (Some (if \<bar>xv\<bar> \<le> maxAbsCoord cfg \<and> \<bar>yv\<bar> \<le> maxAbsCoord cfg
                              then ''Impossible movement'' else ''Impossible coordinates''), t)))
       \<and> (\<forall>g xw yw.
             get_prop g ''x'' = Some (JNum (Finite xw))
           \<and> get_prop g ''y'' = Some (JNum (Finite yw))
           \<and> frames_loop cfg [f] t = (None, t\<lparr>lastCoord := Some (xv, yv)\<rparr>)
           \<longrightarrow> (fst (frames_loop cfg [f, g] t) = None)
               = (\<bar>xw\<bar> \<le> maxAbsCoord cfg \<and> \<bar>yw\<bar> \<le> maxAbsCoord cfg
                  \<and> js_le (js_abs (js_sub (Finite xw) (Finite xv))) (Finite (maxCoordDelta cfg))
                  \<and> js_le (js_abs (js_sub (Finite yw) (Finite yv))) (Finite (maxCoordDelta cfg))))"
proof -
  have n: "(\<not> js_gt (js_abs (js_sub (Finite a) (Finite b))) (Finite c))
             = js_le (js_abs (js_sub (Finite a) (Finite b))) (Finite c)" for a b c
    by (rule not_js_gt) simp_all
  have one: "frames_loop cfg (f # rest) t =
           (if \<bar>xv\<bar> \<le> maxAbsCoord cfg \<and> \<bar>yv\<bar> \<le> maxAbsCoord cfg
               \<and> (case lastCoord t of
                      None \<Rightarrow> True
                    | Some (lx, ly) \<Rightarrow>
                        js_le (js_abs (js_sub (Finite xv) (Finite lx))) (Finite (maxCoordDelta cfg))
                      \<and> js_le (js_abs (js_sub (Finite yv) (Finite ly))) (Finite (maxCoordDelta cfg)))
            then frames_loop cfg rest (t\<lparr>lastCoord := Some (xv, yv)\<rparr>)
            else (Some (if \<bar>xv\<bar> \<le> maxAbsCoord cfg \<and> \<bar>yv\<bar> \<le> maxAbsCoord cfg
                        then ''Impossible movement'' else ''Impossible coordinates''), t))"
    for rest
    unfolding frames_loop_finite[OF assms] n[symmetric]
    by (auto split: option.splits)
  have exact: "frames_loop cfg (f # rest) t =
                 (if \<bar>xv\<bar> \<le> maxAbsCoord cfg \<and> \<bar>yv\<bar> \<le> maxAbsCoord cfg
                     \<and> \<bar>xv - lx\<bar> \<le> maxCoordDelta cfg \<and> \<bar>yv - ly\<bar> \<le> maxCoordDelta cfg
                  then frames_loop cfg rest (t\<lparr>lastCoord := Some (xv, yv)\<rparr>)
                  else (Some (if \<bar>xv\<bar> \<le> maxAbsCoord cfg \<and> \<bar>yv\<bar> \<le> maxAbsCoord cfg
                              then ''Impossible movement'' else ''Impossible coordinates''), t))"
    if e: "lastCoord t = Some (lx, ly)" "round_double (xv - lx) = Finite (xv - lx)"
          "round_double (yv - ly) = Finite (yv - ly)" for lx ly
  proof -
    have dx: "js_abs (js_sub (Finite xv) (Finite lx)) = Finite \<bar>xv - lx\<bar>"
      using e(2) by (simp add: js_sub_def)
    have dy: "js_abs (js_sub (Finite yv) (Finite ly)) = Finite \<bar>yv - ly\<bar>"
      using e(3) by (simp add: js_sub_def)
    show ?thesis unfolding one e(1) by (simp add: dx dy)
  qed
  have two: "(fst (frames_loop cfg [f, g] t) = None)
               = (\<bar>xw\<bar> \<le> maxAbsCoord cfg \<and> \<bar>yw\<bar> \<le> maxAbsCoord cfg
                  \<and> js_le (js_abs (js_sub (Finite xw) (Finite xv))) (Finite (maxCoordDelta cfg))
                  \<and> js_le (js_abs (js_sub (Finite yw) (Finite yv))) (Finite (maxCoordDelta cfg)))"
    if g: "get_prop g ''x'' = Some (JNum (Finite xw))" "get_prop g ''y'' = Some (JNum (Finite yw))"
      and p: "frames_loop cfg [f] t = (None, t\<lparr>lastCoord := Some (xv, yv)\<rparr>)"
    for g xw yw
  proof -
    have "frames_loop cfg [f, g] t = frames_loop cfg [g] (t\<lparr>lastCoord := Some (xv, yv)\<rparr>)"
      using p by (simp add: frames_loop_Cons[of cfg f "[g]" t] del: frames_loop.simps)
    then show ?thesis
      unfolding n[symmetric]
      by (auto simp: frames_loop_finite[OF g] simp del: frames_loop.simps(2))
  qed
  show ?thesis using one exact two by blast
qed

text \<open>
  The witness checks two batches of two frames under the default configuration. In the
  first, with no baseline, \<open>x\<close> goes from the double nearest to 0.001 to the double
  nearest to 20000.001: the difference the code computes is 20000 and both frames
  pass. In the second the baseline before the batch is (20000, 0): the frame (0, 0)
  passes, the difference being the bound, and the frame (20001, 0) is compared
  with it and fails, although it is next to the baseline before the batch.
\<close>

theorem frame_plausibility_witness:
  "get_prop (JObj [(''x'', JNum (Finite (1152921504606847 / 1152921504606846976))),
                   (''y'', JNum (Finite 0))]) ''x''
     = Some (JNum (Finite (1152921504606847 / 1152921504606846976)))
   \<and> get_prop (JObj [(''x'', JNum (Finite (1152921504606847 / 1152921504606846976))),
                     (''y'', JNum (Finite 0))]) ''y''
     = Some (JNum (Finite 0))
   \<and> frames_loop (LIVE_LINK_CONFIG P0 Map.empty)
        [JObj [(''x'', JNum (Finite (1152921504606847 / 1152921504606846976))),
               (''y'', JNum (Finite 0))],
         JObj [(''x'', JNum (Finite (5497558413757907 / 274877906944))),
               (''y'', JNum (Finite 0))]]
        \<lparr>expectedSeq = 2, lastAt = None, lastPct = None, lastCoord = None\<rparr>
     = (None, \<lparr>expectedSeq = 2, lastAt = None, lastPct = None,
               lastCoord = Some (5497558413757907 / 274877906944, 0)\<rparr>)
   \<and> frames_loop (LIVE_LINK_CONFIG P0 Map.empty)
        [JObj [(''x'', JNum (Finite 0)), (''y'', JNum (Finite 0))],
         JObj [(''x'', JNum (Finite 20001)), (''y'', JNum (Finite 0))]]
        \<lparr>expectedSeq = 2, lastAt = None, lastPct = None, lastCoord = Some (20000, 0)\<rparr>
     = (Some ''Impossible movement'',
        \<lparr>expectedSeq = 2, lastAt = None, lastPct = None, lastCoord = Some (0, 0)\<rparr>)"
proof -
  let ?cfg = "LIVE_LINK_CONFIG P0 Map.empty"
  let ?a = "1152921504606847 / 1152921504606846976 :: real"
  let ?b = "5497558413757907 / 274877906944 :: real"
  let ?f = "JObj [(''x'', JNum (Finite ?a)), (''y'', JNum (Finite 0))]"
  let ?g = "JObj [(''x'', JNum (Finite ?b)), (''y'', JNum (Finite 0))]"
  let ?o = "JObj [(''x'', JNum (Finite 0)), (''y'', JNum (Finite 0))]"
  let ?p = "JObj [(''x'', JNum (Finite 20001)), (''y'', JNum (Finite 0))]"
  let ?t = "\<lparr>expectedSeq = 2, lastAt = None, lastPct = None, lastCoord = None\<rparr>"
  let ?u = "\<lparr>expectedSeq = 2, lastAt = None, lastPct = None, lastCoord = Some (20000, 0)\<rparr>"
  have fx: "get_prop ?f ''x'' = Some (JNum (Finite ?a))" by simp
  have fy: "get_prop ?f ''y'' = Some (JNum (Finite 0))" by simp
  have gx: "get_prop ?g ''x'' = Some (JNum (Finite ?b))" by simp
  have gy: "get_prop ?g ''y'' = Some (JNum (Finite 0))" by simp
  have ox: "get_prop ?o ''x'' = Some (JNum (Finite 0))" by simp
  have oy: "get_prop ?o ''y'' = Some (JNum (Finite 0))" by simp
  have px: "get_prop ?p ''x'' = Some (JNum (Finite 20001))" by simp
  have py: "get_prop ?p ''y'' = Some (JNum (Finite 0))" by simp
  have d: "js_abs (js_sub (Finite ?b) (Finite ?a)) = Finite 20000"
    by (simp add: js_sub_def rounding_examples)
  have z: "js_abs (js_sub (Finite 0) (Finite 0)) = Finite 0"
    by (simp add: js_sub_def)
  have d1: "js_abs (js_sub (Finite 0) (Finite 20000)) = Finite 20000"
    by (simp add: js_sub_def)
  have d2: "js_abs (js_sub (Finite 20001) (Finite 0)) = Finite 20001"
    by (simp add: js_sub_def)
  have nil: "frames_loop ?cfg [] s = (None, s)" for s by simp
  have one: "frames_loop ?cfg [?f, ?g] ?t = (None, ?t\<lparr>lastCoord := Some (?b, 0)\<rparr>)"
    unfolding frame_plausibility[where cfg = ?cfg and rest = "[?g]" and t = ?t, OF fx fy, THEN conjunct1]
      frame_plausibility[where cfg = ?cfg and rest = "[]", OF gx gy, THEN conjunct1] nil
    by (simp add: default_config d z)
  have two: "frames_loop ?cfg [?o, ?p] ?u = (Some ''Impossible movement'', ?u\<lparr>lastCoord := Some (0, 0)\<rparr>)"
    unfolding frame_plausibility[where cfg = ?cfg and rest = "[?p]" and t = ?u, OF ox oy, THEN conjunct1]
      frame_plausibility[where cfg = ?cfg and rest = "[]", OF px py, THEN conjunct1] nil
    by (simp add: default_config z d1 d2)
  have one': "frames_loop ?cfg [?f, ?g] ?t
     = (None, \<lparr>expectedSeq = 2, lastAt = None, lastPct = None, lastCoord = Some (?b, 0)\<rparr>)"
    unfolding one by simp
  have two': "frames_loop ?cfg [?o, ?p] ?u
     = (Some ''Impossible movement'',
        \<lparr>expectedSeq = 2, lastAt = None, lastPct = None, lastCoord = Some (0, 0)\<rparr>)"
    unfolding two by simp
  from fx fy one' two' show ?thesis by (intro conjI)
qed

text \<open>
  Claim C9. A frame that is not an object (null, a number, a string, a boolean; an
  array too) is skipped as a frame without \<open>x\<close> or without \<open>y\<close> is: the loop goes
  on with the state unchanged. It counts for the batch size: a batch of \<open>n\<close> such
  frames, in a message that passes the sequence and rate checks, is killed exactly when
  \<open>n\<close> exceeds \<open>maxFramesPerChunk\<close>, and otherwise accepted with \<open>lastCoord\<close> as it
  was.
\<close>

theorem non_object_frame_skipped:
  assumes "\<forall>kvs. f \<noteq> JObj kvs"
  shows "frames_loop cfg (f # rest) t = frames_loop cfg rest t
       \<and> (\<forall>g. get_prop g ''x'' = None \<or> get_prop g ''y'' = None
              \<longrightarrow> frames_loop cfg (g # rest) t = frames_loop cfg rest t)
       \<and> (\<forall>d m n. TelemetrySchema_parse d = Inr m \<and> seq m = expectedSeq t
                  \<and> (\<forall>la lp. lastAt t = Some la \<and> lastPct t = Some lp
                         \<longrightarrow> rate_check cfg now la lp (current_pct m) = None)
                  \<and> frames m = replicate n f
              \<longrightarrow> telemetry_branch cfg now d t =
                    (if real n > maxFramesPerChunk cfg then Some ''Too many frames'' else None,
                     t\<lparr>expectedSeq := expectedSeq t + 1, lastAt := Some now,
                       lastPct := Some (current_pct m)\<rparr>))"
proof -
  have a: "frames_loop cfg (f # rest) t = frames_loop cfg rest t"
    using assms by (rule frames_loop_skip)
  have b: "frames_loop cfg (g # rest) t = frames_loop cfg rest t"
    if "get_prop g ''x'' = None \<or> get_prop g ''y'' = None" for g
    using that by (rule frames_loop_missing)
  have c: "telemetry_branch cfg now d t =
                    (if real n > maxFramesPerChunk cfg then Some ''Too many frames'' else None,
                     t\<lparr>expectedSeq := expectedSeq t + 1, lastAt := Some now,
                       lastPct := Some (current_pct m)\<rparr>)"
    if h: "TelemetrySchema_parse d = Inr m" "seq m = expectedSeq t"
          "\<forall>la lp. lastAt t = Some la \<and> lastPct t = Some lp
                         \<longrightarrow> rate_check cfg now la lp (current_pct m) = None"
          "frames m = replicate n f" for d m n
  proof -
    have r: "(case (lastAt t, lastPct t) of
              (Some la, Some lp) \<Rightarrow> rate_check cfg now la lp (current_pct m)
            | _ \<Rightarrow> None) = None"
      using h(3) by (auto split: option.splits)
    have s: "frames_loop cfg (replicate n f) u = (None, u)" for u
      using assms by (intro frames_loop_all_skipped) simp
    show ?thesis
      unfolding telemetry_branch_passed[OF h(1,2)] r by (simp add: h(4) s)
  qed
  show ?thesis using a b c by blast
qed

theorem non_object_frame_skipped_witness:
  "(\<forall>kvs. JNull \<noteq> JObj kvs)
   \<and> frames_loop (LIVE_LINK_CONFIG P0 Map.empty) [JNull, JNull]
        \<lparr>expectedSeq = 2, lastAt = None, lastPct = None, lastCoord = Some (1, 2)\<rparr>
     = (None, \<lparr>expectedSeq = 2, lastAt = None, lastPct = None, lastCoord = Some (1, 2)\<rparr>)"
proof -
  have h: "\<forall>kvs. JNull \<noteq> JObj kvs" by simp
  have "frames_loop (LIVE_LINK_CONFIG P0 Map.empty) [JNull, JNull]
        \<lparr>expectedSeq = 2, lastAt = None, lastPct = None, lastCoord = Some (1, 2)\<rparr>
     = (None, \<lparr>expectedSeq = 2, lastAt = None, lastPct = None, lastCoord = Some (1, 2)\<rparr>)"
    unfolding non_object_frame_skipped[OF h, THEN conjunct1] by simp
  with h show ?thesis by (rule conjI)
qed

section \<open>The envelope codec\<close>

text \<open>
  Claim C4 as stated fails: the schema makes both \<^verbatim>\<open>data\<close> and
  \<^verbatim>\<open>ciphertext\<close> optional and does not relate them, so an envelope with neither
  passes the parse.
\<close>

theorem envelope_without_ciphertext_parses:
  "parseAuthEnvelope (JObj [(''iv'', JStr ''0123456789abcdef'')])
     = Inr \<lparr>iv = ''0123456789abcdef'', data = None, ciphertext = None, tag = None,
            alg = None, extra = []\<rparr>"
  by (simp add: parseAuthEnvelope_def AuthEnvelopeSchema_parse_def
        z_string_min1_def z_string_min1_optional_def z_string_optional_def)

lemma z_string_min1_Some:
  "(z_string_min1 v = Some s) = (v = Some (JStr s) \<and> s \<noteq> [])"
  by (auto simp: z_string_min1_def split: option.splits json.splits if_splits)

lemma z_string_min1_optional_ok:
  "(\<exists>r. z_string_min1_optional v = Some r) = (v = None \<or> (\<exists>s. v = Some (JStr s) \<and> s \<noteq> []))"
  by (auto simp: z_string_min1_optional_def split: option.splits json.splits if_splits)

lemma z_string_optional_ok:
  "(\<exists>r. z_string_optional v = Some r) = (v = None \<or> (\<exists>s. v = Some (JStr s)))"
  by (auto simp: z_string_optional_def split: option.splits json.splits if_splits)

lemma AuthEnvelopeSchema_parse_obj:
  "(\<exists>e. AuthEnvelopeSchema_parse (JObj kvs) = Inr e) =
     ((\<exists>i. z_string_min1 (map_of kvs ''iv'') = Some i)
      \<and> (\<exists>r. z_string_min1_optional (map_of kvs ''data'') = Some r)
      \<and> (\<exists>r. z_string_min1_optional (map_of kvs ''ciphertext'') = Some r)
      \<and> (\<exists>r. z_string_min1_optional (map_of kvs ''tag'') = Some r)
      \<and> (\<exists>r. z_string_optional (map_of kvs ''alg'') = Some r))"
  by (auto simp: AuthEnvelopeSchema_parse_def split: option.splits)

lemma AuthEnvelopeSchema_parse_error:
  "AuthEnvelopeSchema_parse m = Inl err \<Longrightarrow> err = ZodError"
  by (auto simp: AuthEnvelopeSchema_parse_def split: option.splits json.splits)

text \<open>
  Claim C4, amended. \<^verbatim>\<open>parseAuthEnvelope\<close> succeeds exactly when the input is an
  object whose \<open>iv\<close> is a non-empty string, in which each of \<open>data\<close>, \<open>ciphertext\<close>
  and \<open>tag\<close> that is present is a non-empty string and \<open>alg\<close>, when present, is a
  string (so also with both ciphertext fields, or with neither); every other input
  fails at the parse. An envelope with neither ciphertext field passes the parse and
  fails at the decryption, under every key, for the missing ciphertext.
\<close>

theorem parseAuthEnvelope_accepts:
  "((\<exists>e. parseAuthEnvelope m = Inr e) =
      (\<exists>kvs. m = JObj kvs
         \<and> (\<exists>i. map_of kvs ''iv'' = Some (JStr i) \<and> i \<noteq> [])
         \<and> (map_of kvs ''data'' = None \<or> (\<exists>s. map_of kvs ''data'' = Some (JStr s) \<and> s \<noteq> []))
         \<and> (map_of kvs ''ciphertext'' = None
              \<or> (\<exists>s. map_of kvs ''ciphertext'' = Some (JStr s) \<and> s \<noteq> []))
         \<and> (map_of kvs ''tag'' = None \<or> (\<exists>s. map_of kvs ''tag'' = Some (JStr s) \<and> s \<noteq> []))
         \<and> (map_of kvs ''alg'' = None \<or> (\<exists>s. map_of kvs ''alg'' = Some (JStr s)))))
   \<and> ((\<forall>e. parseAuthEnvelope m \<noteq> Inr e) = (parseAuthEnvelope m = Inl ZodError))
   \<and> (\<forall>e k. parseAuthEnvelope m = Inr e \<and> data e = None \<and> ciphertext e = None
          \<longrightarrow> decryptAuthEnvelope P e k = Inl MissingCiphertext)"
proof -
  have a: "(\<exists>e. parseAuthEnvelope m = Inr e) =
      (\<exists>kvs. m = JObj kvs
         \<and> (\<exists>i. map_of kvs ''iv'' = Some (JStr i) \<and> i \<noteq> [])
         \<and> (map_of kvs ''data'' = None \<or> (\<exists>s. map_of kvs ''data'' = Some (JStr s) \<and> s \<noteq> []))
         \<and> (map_of kvs ''ciphertext'' = None
              \<or> (\<exists>s. map_of kvs ''ciphertext'' = Some (JStr s) \<and> s \<noteq> []))
         \<and> (map_of kvs ''tag'' = None \<or> (\<exists>s. map_of kvs ''tag'' = Some (JStr s) \<and> s \<noteq> []))
         \<and> (map_of kvs ''alg'' = None \<or> (\<exists>s. map_of kvs ''alg'' = Some (JStr s))))"
  proof (cases m)
    case (JObj kvs)
    show ?thesis
      unfolding parseAuthEnvelope_def JObj AuthEnvelopeSchema_parse_obj
        z_string_min1_Some z_string_min1_optional_ok z_string_optional_ok
      by simp
  qed (simp_all add: parseAuthEnvelope_def AuthEnvelopeSchema_parse_def)
  have b: "(\<forall>e. parseAuthEnvelope m \<noteq> Inr e) = (parseAuthEnvelope m = Inl ZodError)"
    using AuthEnvelopeSchema_parse_error[of m]
    by (cases "parseAuthEnvelope m") (auto simp: parseAuthEnvelope_def)
  have c: "decryptAuthEnvelope P e k = Inl MissingCiphertext"
    if "data e = None" "ciphertext e = None" for e k
    using that by (simp add: decryptAuthEnvelope_def)
  show ?thesis using a b c by blast
qed


theorem parseAuthEnvelope_accepts_witness:
  "parseAuthEnvelope (JObj [(''iv'', JStr ''0123456789ab''), (''alg'', JStr ''aes-256-gcm'')])
     = Inr \<lparr>iv = ''0123456789ab'', data = None, ciphertext = None, tag = None,
            alg = Some ''aes-256-gcm'', extra = []\<rparr>
   \<and> decryptAuthEnvelope P0
        \<lparr>iv = ''0123456789ab'', data = None, ciphertext = None, tag = None,
         alg = Some ''aes-256-gcm'', extra = []\<rparr> ''K1'' = Inl MissingCiphertext"
proof -
  let ?m = "JObj [(''iv'', JStr ''0123456789ab''), (''alg'', JStr ''aes-256-gcm'')]"
  let ?e = "\<lparr>iv = ''0123456789ab'', data = None, ciphertext = None, tag = None,
            alg = Some ''aes-256-gcm'', extra = []\<rparr>"
  have h: "parseAuthEnvelope ?m = Inr ?e"
    by (simp add: parseAuthEnvelope_def AuthEnvelopeSchema_parse_def
        z_string_min1_def z_string_min1_optional_def z_string_optional_def)
  have "parseAuthEnvelope ?m = Inr ?e \<and> data ?e = None \<and> ciphertext ?e = None"
    using h by simp
  with parseAuthEnvelope_accepts[of ?m P0, THEN conjunct2, THEN conjunct2]
  have "decryptAuthEnvelope P0 ?e ''K1'' = Inl MissingCiphertext" by blast
  with h show ?thesis by (rule conjI)
qed

section \<open>The handshake\<close>

subsection \<open>The examples, evaluated\<close>

lemma W_open_session:
  "sessions (W_open n) ''p'' =
     Some \<lparr>sid = ''p'', remoteAddress = None, createdAt = 0,
           auth = \<lparr>state = Challenging, auth_nonce = n, auth_version = None,
                   handshakeTimer = Some 5000\<rparr>,
           telemetry = \<lparr>expectedSeq = 1, lastAt = None, lastPct = None, lastCoord = None\<rparr>\<rparr>"
  by (simp add: W_open_def handler_open_def no_connections_def default_config Let_def)

lemma envelope_M:
  "parseAuthEnvelope (envelopeCandidate
      (JObj [(''payload'', JObj [(''iv'', JStr ''0123456789abcdef''), (''data'', JStr ''C'')])]))
   = Inr \<lparr>iv = ''0123456789abcdef'', data = Some ''C'', ciphertext = None, tag = None,
          alg = None, extra = []\<rparr>"
  by (simp add: parseAuthEnvelope_def envelopeCandidate_def AuthEnvelopeSchema_parse_def
        z_string_min1_def z_string_min1_optional_def z_string_optional_def)

lemma decrypt_M:
  "decryptAuthEnvelope P0
     \<lparr>iv = ''0123456789abcdef'', data = Some ''C'', ciphertext = None, tag = None,
      alg = None, extra = []\<rparr> k
   = (if k = ''K1'' then Inr ''C'' else Inl DecipherFailure)"
  by (simp add: decryptAuthEnvelope_def decodeBase64Like_def trim_def is_space_def wide_spaces2_def wide_spaces3_def
        toLowerCase_def decryptAes256Cbc_def P0_def Let_def)

lemma payload_C:
  "LiveLinkAuthPayloadSchema_parse (JObj [(''nonce'', JStr ''N'')])
   = Inr \<lparr>nonce = ''N'', payload_extra = []\<rparr>"
  by (simp add: LiveLinkAuthPayloadSchema_parse_def z_string_min1_def)

lemma JSON_parse_P0:
  "JSON_parse P0 ''M'' =
     Some (JObj [(''payload'', JObj [(''iv'', JStr ''0123456789abcdef''), (''data'', JStr ''C'')])])"
  "JSON_parse P0 ''C'' = Some (JObj [(''nonce'', JStr ''N'')])"
  "JSON_parse P0 ''T'' =
     Some (JObj [(''seq'', JNum (Finite 1)), (''current_pct'', JNum (Finite 0)),
                 (''frames'', JArr [JNull])])"
  by (simp_all add: P0_def)

lemma key_trial_M:
  "key_trial P0
     \<lparr>iv = ''0123456789abcdef'', data = Some ''C'', ciphertext = None, tag = None,
      alg = None, extra = []\<rparr> n keyring0
   = (if n = ''N'' then Authed ''v1'' \<lparr>nonce = ''N'', payload_extra = []\<rparr> else NonceMismatch)"
  by (simp add: keyring0_def decrypt_M JSON_parse_P0 payload_C timingSafeEqualString_def
        timingSafeEqual_def Let_def)

lemma W_open_eq:
  "W_open n =
     \<lparr>sessions = [''p'' \<mapsto>
        \<lparr>sid = ''p'', remoteAddress = None, createdAt = 0,
         auth = \<lparr>state = Challenging, auth_nonce = n, auth_version = None,
                 handshakeTimer = Some 5000\<rparr>,
         telemetry = \<lparr>expectedSeq = 1, lastAt = None, lastPct = None, lastCoord = None\<rparr>\<rparr>],
      contexts = [''p'' \<mapsto> \<lparr>ctx_nonce = n, authorized = False\<rparr>]\<rparr>"
  by (simp add: W_open_def handler_open_def no_connections_def default_config Let_def)

lemma message_M_N:
  "handler_message (LIVE_LINK_CONFIG P0 Map.empty) P0 keyring0 1 ''p'' ''M'' (W_open ''N'') =
     ([ClearTimeout, Send (JObj [(''cmd'', JStr ''auth_ok''), (''version'', JStr ''v1'')])],
      \<lparr>sessions = [''p'' \<mapsto>
        \<lparr>sid = ''p'', remoteAddress = None, createdAt = 0,
         auth = \<lparr>state = Authorized, auth_nonce = ''N'', auth_version = Some ''v1'',
                 handshakeTimer = None\<rparr>,
         telemetry = \<lparr>expectedSeq = 1, lastAt = None, lastPct = None, lastCoord = None\<rparr>\<rparr>],
      contexts = [''p'' \<mapsto> \<lparr>ctx_nonce = ''N'', authorized = True\<rparr>]\<rparr>)"
  by (simp add: handler_message_def W_open_eq JSON_parse_P0 default_config
       handshake_branch_def envelope_M key_trial_M sendJson_def closeUnauthorized_def)

lemma message_M_X:
  "handler_message (LIVE_LINK_CONFIG P0 Map.empty) P0 keyring0 1 ''p'' ''M'' (W_open ''X'') =
     ([Close 1008 ''Nonce mismatch''], W_open ''X'')"
  by (simp add: handler_message_def W_open_eq JSON_parse_P0 default_config
       handshake_branch_def envelope_M key_trial_M sendJson_def closeUnauthorized_def)

lemma W_auth_eq:
  "W_auth =
     \<lparr>sessions = [''p'' \<mapsto>
        \<lparr>sid = ''p'', remoteAddress = None, createdAt = 0,
         auth = \<lparr>state = Authorized, auth_nonce = ''N'', auth_version = Some ''v1'',
                 handshakeTimer = None\<rparr>,
         telemetry = \<lparr>expectedSeq = 1, lastAt = None, lastPct = None, lastCoord = None\<rparr>\<rparr>],
      contexts = [''p'' \<mapsto> \<lparr>ctx_nonce = ''N'', authorized = True\<rparr>]\<rparr>"
  unfolding W_auth_def message_M_N by simp

subsection \<open>Authorization\<close>

lemma timingSafeEqualString_iff: "timingSafeEqualString a b \<longleftrightarrow> a = b"
  by (auto simp: timingSafeEqualString_def timingSafeEqual_def Let_def)

lemma key_trial_Authed:
  "key_trial P e n ks = Authed v p \<Longrightarrow>
   \<exists>entry \<in> set ks. \<exists>pt j.
      decryptAuthEnvelope P e (key entry) = Inr pt \<and> JSON_parse P pt = Some j
    \<and> LiveLinkAuthPayloadSchema_parse j = Inr p \<and> nonce p = n \<and> version entry = v"
  by (induction ks)
     (auto simp: timingSafeEqualString_iff split: sum.splits option.splits if_splits)

lemma handshake_branch_Authorized:
  assumes "handshake_branch P keyring d s = (effs, s')"
      and "state (auth s) \<noteq> Authorized" and "state (auth s') = Authorized"
  shows "\<exists>e entry pt j p.
      parseAuthEnvelope (envelopeCandidate d) = Inr e \<and> entry \<in> set keyring
    \<and> decryptAuthEnvelope P e (key entry) = Inr pt \<and> JSON_parse P pt = Some j
    \<and> LiveLinkAuthPayloadSchema_parse j = Inr p \<and> nonce p = auth_nonce (auth s)
    \<and> auth_version (auth s') = Some (version entry)"
proof (cases "parseAuthEnvelope (envelopeCandidate d)")
  case (Inl a)
  then show ?thesis using assms by (simp add: handshake_branch_def)
next
  case (Inr e)
  show ?thesis
  proof (cases "key_trial P e (auth_nonce (auth s)) keyring")
    case (Authed v p)
    then have v: "v \<noteq> []" and s': "auth_version (auth s') = Some v"
      using assms Inr by (auto simp: handshake_branch_def split: if_splits)
    from key_trial_Authed[OF Authed] obtain entry pt j where
      "entry \<in> set keyring" "decryptAuthEnvelope P e (key entry) = Inr pt"
      "JSON_parse P pt = Some j" "LiveLinkAuthPayloadSchema_parse j = Inr p"
      "nonce p = auth_nonce (auth s)" "version entry = v" by blast
    then show ?thesis using Inr s' by blast
  next
    case NonceMismatch
    then show ?thesis using assms Inr by (simp add: handshake_branch_def)
  next
    case Exhausted
    then show ?thesis using assms Inr by (simp add: handshake_branch_def)
  qed
qed

text \<open>
  Claim C1. When a message takes a session from \<open>Challenging\<close> to \<open>Authorized\<close>,
  some entry of the keyring decrypts the envelope of the message to a text that parses
  as a JSON payload whose nonce is the nonce of the session (the comparison, which
  tests the lengths first, holds exactly for equal strings); the version recorded is
  that entry's. Only the keys of the keyring are tried.
\<close>

theorem authorization_needs_keyring_key_and_nonce:
  assumes "sessions W peer_id = Some s" and "state (auth s) = Challenging"
      and "handler_message cfg P keyring now peer_id msg W = (effs, W')"
      and "sessions W' peer_id = Some s'" and "state (auth s') = Authorized"
  shows "\<exists>d e entry plaintext j parsed.
      JSON_parse P msg = Some d
    \<and> parseAuthEnvelope (envelopeCandidate d) = Inr e
    \<and> entry \<in> set keyring
    \<and> decryptAuthEnvelope P e (key entry) = Inr plaintext
    \<and> JSON_parse P plaintext = Some j
    \<and> LiveLinkAuthPayloadSchema_parse j = Inr parsed
    \<and> timingSafeEqualString (nonce parsed) (auth_nonce (auth s))
    \<and> nonce parsed = auth_nonce (auth s)
    \<and> auth_version (auth s') = Some (version entry)"
proof -
  have na: "state (auth s) \<noteq> Authorized" using assms(2) by simp
  have same: "W' = W \<Longrightarrow> False" using assms(1,2,4,5) by simp
  have big: "\<not> real (length msg) > maxMessageBytes cfg"
    using assms(1,3) same by (auto simp: handler_message_def)
  obtain d where d: "JSON_parse P msg = Some d"
    using assms(1,3) same big by (cases "JSON_parse P msg") (auto simp: handler_message_def)
  have ping: "\<not> (truthy d \<and> js_typeof d = ''object'' \<and> get_prop d ''cmd'' = Some (JStr ''ping''))"
    using assms(1,3) same big d by (auto simp: handler_message_def)
  obtain effs0 s0 where hb: "handshake_branch P keyring d s = (effs0, s0)"
    by (cases "handshake_branch P keyring d s")
  have "sessions W' peer_id = Some s0"
    using assms(1,3) big d ping na hb by (auto simp: handler_message_def)
  then have "s0 = s'" using assms(4) by simp
  from handshake_branch_Authorized[OF hb[unfolded this] na assms(5)] d
  show ?thesis by (auto simp: timingSafeEqualString_iff)
qed


theorem authorization_needs_keyring_key_and_nonce_witness:
  "sessions (W_open ''N'') ''p'' =
     Some \<lparr>sid = ''p'', remoteAddress = None, createdAt = 0,
           auth = \<lparr>state = Challenging, auth_nonce = ''N'', auth_version = None,
                   handshakeTimer = Some 5000\<rparr>,
           telemetry = \<lparr>expectedSeq = 1, lastAt = None, lastPct = None, lastCoord = None\<rparr>\<rparr>
   \<and> (\<exists>effs W' s'.
         handler_message (LIVE_LINK_CONFIG P0 Map.empty) P0 keyring0 1 ''p'' ''M'' (W_open ''N'')
           = (effs, W')
       \<and> sessions W' ''p'' = Some s' \<and> state (auth s') = Authorized
       \<and> (\<exists>entry. entry \<in> set keyring0 \<and> auth_version (auth s') = Some (version entry)))"
proof -
  let ?s = "\<lparr>sid = ''p'', remoteAddress = None, createdAt = 0,
           auth = \<lparr>state = Challenging, auth_nonce = ''N'', auth_version = None,
                   handshakeTimer = Some 5000\<rparr>,
           telemetry = \<lparr>expectedSeq = 1, lastAt = None, lastPct = None, lastCoord = None\<rparr>\<rparr>"
  let ?s' = "\<lparr>sid = ''p'', remoteAddress = None, createdAt = 0,
         auth = \<lparr>state = Authorized, auth_nonce = ''N'', auth_version = Some ''v1'',
                 handshakeTimer = None\<rparr>,
         telemetry = \<lparr>expectedSeq = 1, lastAt = None, lastPct = None, lastCoord = None\<rparr>\<rparr>"
  let ?W' = "\<lparr>sessions = [''p'' \<mapsto> ?s'],
             contexts = [''p'' \<mapsto> \<lparr>ctx_nonce = ''N'', authorized = True\<rparr>]\<rparr>"
  have h1: "sessions (W_open ''N'') ''p'' = Some ?s" by (rule W_open_session)
  have h2: "state (auth ?s) = Challenging" by simp
  have h3: "handler_message (LIVE_LINK_CONFIG P0 Map.empty) P0 keyring0 1 ''p'' ''M'' (W_open ''N'')
              = ([ClearTimeout, Send (JObj [(''cmd'', JStr ''auth_ok''), (''version'', JStr ''v1'')])],
                 ?W')"
    by (rule message_M_N)
  have h4: "sessions ?W' ''p'' = Some ?s'" by simp
  have h5: "state (auth ?s') = Authorized" by simp
  from authorization_needs_keyring_key_and_nonce[OF h1 h2 h3 h4 h5]
  obtain entry where "entry \<in> set keyring0" "auth_version (auth ?s') = Some (version entry)"
    by blast
  with h1 h3 h4 h5 show ?thesis by blast
qed

lemma key_trial_skip:
  assumes "\<forall>k \<in> set pre. \<forall>pt j. decryptAuthEnvelope P e (key k) = Inr pt \<longrightarrow>
             JSON_parse P pt = Some j \<longrightarrow> isl (LiveLinkAuthPayloadSchema_parse j)"
  shows "key_trial P e n (pre @ rest) = key_trial P e n rest"
  using assms
  by (induction pre) (auto split: sum.splits option.splits)

text \<open>
  Claim C5. When the loop reaches an entry (every entry before it failed to decrypt or
  to give a payload) whose key decrypts the envelope to a well-formed payload with a
  nonce other than the session's, the loop ends there: the connection is closed with
  the reason \<open>Nonce mismatch\<close>, the store is as before, and the entries after it have
  no part in the result.
\<close>

theorem nonce_mismatch_stops_the_loop:
  assumes "sessions W peer_id = Some s" and "state (auth s) = Challenging"
      and "\<not> real (length msg) > maxMessageBytes cfg"
      and "JSON_parse P msg = Some d"
      and "get_prop d ''cmd'' \<noteq> Some (JStr ''ping'')"
      and "parseAuthEnvelope (envelopeCandidate d) = Inr e"
      and "\<forall>k \<in> set pre. \<forall>pt j. decryptAuthEnvelope P e (key k) = Inr pt \<longrightarrow>
             JSON_parse P pt = Some j \<longrightarrow> isl (LiveLinkAuthPayloadSchema_parse j)"
      and "decryptAuthEnvelope P e (key entry) = Inr plaintext"
      and "JSON_parse P plaintext = Some j"
      and "LiveLinkAuthPayloadSchema_parse j = Inr parsed"
      and "nonce parsed \<noteq> auth_nonce (auth s)"
  shows "key_trial P e (auth_nonce (auth s)) (pre @ entry # post) = NonceMismatch
       \<and> handler_message cfg P (pre @ entry # post) now peer_id msg W
           = ([Close 1008 ''Nonce mismatch''], W)"
proof -
  have kt: "key_trial P e (auth_nonce (auth s)) (pre @ entry # post) = NonceMismatch"
    unfolding key_trial_skip[OF assms(7)]
    using assms(8-11) by (simp add: timingSafeEqualString_iff)
  have hb: "handshake_branch P (pre @ entry # post) d s = ([Close 1008 ''Nonce mismatch''], s)"
    by (simp add: handshake_branch_def assms(6) kt closeUnauthorized_def)
  have W: "W\<lparr>sessions := (sessions W)(peer_id \<mapsto> s), contexts := contexts W\<rparr> = W"
    using assms(1) by (simp add: map_upd_triv)
  have "handler_message cfg P (pre @ entry # post) now peer_id msg W
           = ([Close 1008 ''Nonce mismatch''], W)"
    using assms(1-5) by (simp add: handler_message_def hb W)
  with kt show ?thesis by simp
qed


theorem nonce_mismatch_stops_the_loop_witness:
  "JSON_parse P0 ''M'' =
     Some (JObj [(''payload'', JObj [(''iv'', JStr ''0123456789abcdef''), (''data'', JStr ''C'')])])
   \<and> decryptAuthEnvelope P0
        \<lparr>iv = ''0123456789abcdef'', data = Some ''C'', ciphertext = None, tag = None,
         alg = None, extra = []\<rparr> (key \<lparr>version = ''v1'', key = ''K1''\<rparr>) = Inr ''C''
   \<and> JSON_parse P0 ''C'' = Some (JObj [(''nonce'', JStr ''N'')])
   \<and> ''N'' \<noteq> ''X''
   \<and> handler_message (LIVE_LINK_CONFIG P0 Map.empty) P0
        ([\<lparr>version = ''v0'', key = ''K0''\<rparr>] @ \<lparr>version = ''v1'', key = ''K1''\<rparr>
           # [\<lparr>version = ''v2'', key = ''K2''\<rparr>]) 1 ''p'' ''M'' (W_open ''X'')
      = ([Close 1008 ''Nonce mismatch''], W_open ''X'')"
proof -
  let ?d = "JObj [(''payload'', JObj [(''iv'', JStr ''0123456789abcdef''), (''data'', JStr ''C'')])]"
  let ?e = "\<lparr>iv = ''0123456789abcdef'', data = Some ''C'', ciphertext = None, tag = None,
         alg = None, extra = []\<rparr>"
  let ?s = "\<lparr>sid = ''p'', remoteAddress = None, createdAt = 0,
           auth = \<lparr>state = Challenging, auth_nonce = ''X'', auth_version = None,
                   handshakeTimer = Some 5000\<rparr>,
           telemetry = \<lparr>expectedSeq = 1, lastAt = None, lastPct = None, lastCoord = None\<rparr>\<rparr>"
  have h1: "sessions (W_open ''X'') ''p'' = Some ?s" by (rule W_open_session)
  have h2: "state (auth ?s) = Challenging" by simp
  have h3: "\<not> real (length ''M'') > maxMessageBytes (LIVE_LINK_CONFIG P0 Map.empty)"
    by (simp add: default_config)
  have h4: "JSON_parse P0 ''M'' = Some ?d" by (rule JSON_parse_P0)
  have h5: "get_prop ?d ''cmd'' \<noteq> Some (JStr ''ping'')" by simp
  have h6: "parseAuthEnvelope (envelopeCandidate ?d) = Inr ?e" by (rule envelope_M)
  have h7: "\<forall>k \<in> set [\<lparr>version = ''v0'', key = ''K0''\<rparr>]. \<forall>pt j.
             decryptAuthEnvelope P0 ?e (key k) = Inr pt \<longrightarrow>
             JSON_parse P0 pt = Some j \<longrightarrow> isl (LiveLinkAuthPayloadSchema_parse j)"
    by (simp add: decrypt_M)
  have h8: "decryptAuthEnvelope P0 ?e (key \<lparr>version = ''v1'', key = ''K1''\<rparr>) = Inr ''C''"
    by (simp add: decrypt_M)
  have h9: "JSON_parse P0 ''C'' = Some (JObj [(''nonce'', JStr ''N'')])" by (rule JSON_parse_P0)
  have h10: "LiveLinkAuthPayloadSchema_parse (JObj [(''nonce'', JStr ''N'')])
               = Inr \<lparr>nonce = ''N'', payload_extra = []\<rparr>" by (rule payload_C)
  have h11: "nonce \<lparr>nonce = ''N'', payload_extra = []\<rparr> \<noteq> auth_nonce (auth ?s)" by simp
  have n: "''N'' \<noteq> ''X''" by simp
  from nonce_mismatch_stops_the_loop[OF h1 h2 h3 h4 h5 h6 h7 h8 h9 h10 h11, THEN conjunct2]
  have "handler_message (LIVE_LINK_CONFIG P0 Map.empty) P0
        ([\<lparr>version = ''v0'', key = ''K0''\<rparr>] @ \<lparr>version = ''v1'', key = ''K1''\<rparr>
           # [\<lparr>version = ''v2'', key = ''K2''\<rparr>]) 1 ''p'' ''M'' (W_open ''X'')
      = ([Close 1008 ''Nonce mismatch''], W_open ''X'')" .
  with h4 h8 h9 n show ?thesis by (intro conjI)
qed

section \<open>Open and close\<close>

text \<open>
  Claim C10. \<open>open\<close> stores the session whatever the keyring is. With the empty
  keyring it logs, closes the connection and sends nothing, in particular no
  challenge; the session stays in the store, and \<open>close\<close> removes it.
\<close>

theorem open_stores_session_before_keyring_check:
  "(\<exists>s. sessions (snd (handler_open cfg keyring now peer_id remote n W)) peer_id = Some s
        \<and> state (auth s) = Challenging \<and> auth_nonce (auth s) = n)
   \<and> fst (handler_open cfg [] now peer_id remote n W) =
        [SetTimeout (handshakeTimeoutMs cfg),
         LogError ''[live-link] No LIVE_LINK_HASH_KEYS configured; rejecting connection'',
         Close 1008 ''Server misconfigured'']
   \<and> (\<forall>j. Send j \<notin> set (fst (handler_open cfg [] now peer_id remote n W)))
   \<and> (\<exists>s. sessions (snd (handler_open cfg [] now peer_id remote n W)) peer_id = Some s)
   \<and> sessions (snd (handler_close peer_id (snd (handler_open cfg [] now peer_id remote n W))))
        peer_id = None
   \<and> (keyring \<noteq> [] \<longrightarrow>
        fst (handler_open cfg keyring now peer_id remote n W) =
          [SetTimeout (handshakeTimeoutMs cfg),
           Send (JObj [(''cmd'', JStr ''auth_challenge''), (''nonce'', JStr n)])])"
  by (simp add: handler_open_def handler_close_def Let_def closeUnauthorized_def sendJson_def)

theorem open_stores_session_before_keyring_check_witness:
  "fst (handler_open (LIVE_LINK_CONFIG P0 Map.empty) [] 0 ''p'' None ''N'' no_connections) =
        [SetTimeout 5000,
         LogError ''[live-link] No LIVE_LINK_HASH_KEYS configured; rejecting connection'',
         Close 1008 ''Server misconfigured'']
   \<and> sessions (snd (handler_close ''p''
        (snd (handler_open (LIVE_LINK_CONFIG P0 Map.empty) [] 0 ''p'' None ''N'' no_connections))))
        ''p'' = None
   \<and> keyring0 \<noteq> []
   \<and> fst (handler_open (LIVE_LINK_CONFIG P0 Map.empty) keyring0 0 ''p'' None ''N'' no_connections) =
          [SetTimeout 5000,
           Send (JObj [(''cmd'', JStr ''auth_challenge''), (''nonce'', JStr ''N'')])]"
proof -
  have k: "keyring0 \<noteq> []" by (simp add: keyring0_def)
  show ?thesis
    using k open_stores_session_before_keyring_check[of "LIVE_LINK_CONFIG P0 Map.empty" keyring0 0
            "''p''" None "''N''" no_connections]
    by (simp add: default_config)
qed

section \<open>The sequence number\<close>

text \<open>
  Claim C3 as stated fails: \<open>expectedSeq\<close> is incremented as soon as the sequence
  check passes, so a message rejected by a later step has changed it. Here the first
  message has the expected number and a frame out of bounds.
\<close>

theorem rejected_message_advances_expectedSeq:
  "telemetry_branch (LIVE_LINK_CONFIG P0 Map.empty) 1000
     (JObj [(''seq'', JNum (Finite 1)), (''current_pct'', JNum (Finite 0)),
            (''frames'', JArr [JObj [(''x'', JNum (Finite 100000000)), (''y'', JNum (Finite 0))]])])
     \<lparr>expectedSeq = 1, lastAt = None, lastPct = None, lastCoord = None\<rparr>
   = (Some ''Impossible coordinates'',
      \<lparr>expectedSeq = 2, lastAt = Some 1000, lastPct = Some 0, lastCoord = None\<rparr>)"
  by (simp add: telemetry_branch_def TelemetrySchema_parse_def rate_check_def default_config)

lemma handshake_branch_telemetry:
  "telemetry (snd (handshake_branch P keyring d s)) = telemetry s"
  by (simp add: handshake_branch_def split: sum.splits trial.splits)

lemma telemetry_branch_expectedSeq:
  "expectedSeq (snd (telemetry_branch cfg now d t)) =
     (if \<exists>m. TelemetrySchema_parse d = Inr m \<and> seq m = expectedSeq t
      then expectedSeq t + 1 else expectedSeq t)"
proof (cases "TelemetrySchema_parse d")
  case (Inl a)
  then show ?thesis by (simp add: telemetry_branch_def)
next
  case (Inr m)
  show ?thesis
  proof (cases "seq m = expectedSeq t")
    case False
    then show ?thesis using Inr by (simp add: telemetry_branch_def)
  next
    case True
    define t2 where "t2 = t\<lparr>expectedSeq := expectedSeq t + 1, lastAt := Some now,
                    lastPct := Some (current_pct m)\<rparr>"
    have fl: "expectedSeq (snd (frames_loop cfg (frames m) t2)) = expectedSeq t + 1"
      using frames_loop_fields[of cfg "frames m" t2] 
      by (cases "frames_loop cfg (frames m) t2") (simp add: t2_def)
    have "expectedSeq (snd (telemetry_branch cfg now d t)) = expectedSeq t + 1"
      unfolding telemetry_branch_passed[OF Inr True]
      using fl by (simp add: t2_def split: option.splits)
    then show ?thesis using Inr True by simp
  qed
qed

lemma TelemetrySchema_parse_not_ping:
  "TelemetrySchema_parse d = Inr m \<Longrightarrow> get_prop d ''cmd'' \<noteq> Some (JStr ''ping'')"
  by (cases d) (auto simp: TelemetrySchema_parse_def split: option.splits if_splits)


lemma handler_message_expectedSeq:
  assumes "sessions W peer_id = Some s"
  shows "\<exists>s'. sessions (snd (handler_message cfg P keyring now peer_id msg W)) peer_id = Some s'
          \<and> expectedSeq (telemetry s') =
              (if state (auth s) = Authorized \<and> \<not> real (length msg) > maxMessageBytes cfg
                  \<and> (\<exists>d m. JSON_parse P msg = Some d \<and> TelemetrySchema_parse d = Inr m
                            \<and> seq m = expectedSeq (telemetry s))
               then expectedSeq (telemetry s) + 1 else expectedSeq (telemetry s))"
proof (cases "real (length msg) > maxMessageBytes cfg")
  case True
  then show ?thesis using assms by (simp add: handler_message_def)
next
  case big: False
  show ?thesis
  proof (cases "JSON_parse P msg")
    case None
    then show ?thesis using assms big by (simp add: handler_message_def)
  next
    case (Some d)
    show ?thesis
    proof (cases "truthy d \<and> js_typeof d = ''object'' \<and> get_prop d ''cmd'' = Some (JStr ''ping'')")
      case True
      then have n: "\<forall>m. TelemetrySchema_parse d \<noteq> Inr m"
        using TelemetrySchema_parse_not_ping[of d] by blast
      have hm: "snd (handler_message cfg P keyring now peer_id msg W) = W"
        using assms big Some True by (simp add: handler_message_def)
      show ?thesis unfolding hm using assms n Some by simp
    next
      case ping: False
      show ?thesis
      proof (cases "state (auth s) = Authorized")
        case False
        obtain effs0 s0 where hb: "handshake_branch P keyring d s = (effs0, s0)"
          by (cases "handshake_branch P keyring d s")
        have e: "telemetry s0 = telemetry s"
          using handshake_branch_telemetry[of P keyring d s] hb by simp
        have hm: "sessions (snd (handler_message cfg P keyring now peer_id msg W)) peer_id = Some s0"
          using assms big Some ping False hb by (auto simp: handler_message_def)
        show ?thesis unfolding hm using e False by simp
      next
        case True
        obtain r t' where tb: "telemetry_branch cfg now d (telemetry s) = (r, t')"
          by (cases "telemetry_branch cfg now d (telemetry s)")
        have e: "expectedSeq t' =
               (if \<exists>m. TelemetrySchema_parse d = Inr m \<and> seq m = expectedSeq (telemetry s)
                then expectedSeq (telemetry s) + 1 else expectedSeq (telemetry s))"
          using telemetry_branch_expectedSeq[of cfg now d "telemetry s"] tb by simp
        have hm: "snd (handler_message cfg P keyring now peer_id msg W) =
                    W\<lparr>sessions := (sessions W)(peer_id \<mapsto> s\<lparr>telemetry := t'\<rparr>)\<rparr>"
          using assms big Some ping True tb by (auto simp: handler_message_def)
        show ?thesis unfolding hm using e big Some True by simp
      qed
    qed
  qed
qed

text \<open>
  Claim C3, amended. \<open>expectedSeq\<close> is 1 in the session \<open>open\<close> creates. A message
  changes it only by adding 1, and does so exactly when the session is authorized and
  the message is a telemetry message that passes the size, JSON, schema and sequence
  checks, whether or not a later step rejects it. A telemetry message with another
  \<open>seq\<close> is killed for the sequence mismatch and leaves \<open>expectedSeq\<close> as it was.
\<close>

theorem expectedSeq_steps:
  "(\<exists>s. sessions (snd (handler_open cfg keyring now peer_id remote n W)) peer_id = Some s
        \<and> expectedSeq (telemetry s) = 1)
   \<and> (\<forall>s. sessions W peer_id = Some s \<longrightarrow>
        (\<exists>s'. sessions (snd (handler_message cfg P keyring now peer_id msg W)) peer_id = Some s'
          \<and> expectedSeq (telemetry s') =
              (if state (auth s) = Authorized \<and> \<not> real (length msg) > maxMessageBytes cfg
                  \<and> (\<exists>d m. JSON_parse P msg = Some d \<and> TelemetrySchema_parse d = Inr m
                            \<and> seq m = expectedSeq (telemetry s))
               then expectedSeq (telemetry s) + 1 else expectedSeq (telemetry s))))
   \<and> (\<forall>d m t. TelemetrySchema_parse d = Inr m \<and> seq m \<noteq> expectedSeq t \<longrightarrow>
        telemetry_branch cfg now d t = (Some ''Sequence mismatch'', t))"
proof -
  have a: "\<exists>s. sessions (snd (handler_open cfg keyring now peer_id remote n W)) peer_id = Some s
        \<and> expectedSeq (telemetry s) = 1"
    by (simp add: handler_open_def Let_def)
  have c: "telemetry_branch cfg now d t = (Some ''Sequence mismatch'', t)"
    if "TelemetrySchema_parse d = Inr m" "seq m \<noteq> expectedSeq t" for d m t
    using that by (simp add: telemetry_branch_def)
  show ?thesis
    using a handler_message_expectedSeq[of W peer_id _ cfg P keyring now msg] c by blast
qed

theorem expectedSeq_steps_witness:
  "sessions W_auth ''p'' =
     Some \<lparr>sid = ''p'', remoteAddress = None, createdAt = 0,
         auth = \<lparr>state = Authorized, auth_nonce = ''N'', auth_version = Some ''v1'',
                 handshakeTimer = None\<rparr>,
         telemetry = \<lparr>expectedSeq = 1, lastAt = None, lastPct = None, lastCoord = None\<rparr>\<rparr>
   \<and> (\<exists>s'. sessions (snd (handler_message (LIVE_LINK_CONFIG P0 Map.empty) P0 keyring0 1000
                            ''p'' ''T'' W_auth)) ''p'' = Some s'
          \<and> expectedSeq (telemetry s') = 2)"
proof -
  let ?s = "\<lparr>sid = ''p'', remoteAddress = None, createdAt = 0,
         auth = \<lparr>state = Authorized, auth_nonce = ''N'', auth_version = Some ''v1'',
                 handshakeTimer = None\<rparr>,
         telemetry = \<lparr>expectedSeq = 1, lastAt = None, lastPct = None, lastCoord = None\<rparr>\<rparr>"
  have h: "sessions W_auth ''p'' = Some ?s" by (simp add: W_auth_eq)
  have p: "\<exists>d m. JSON_parse P0 ''T'' = Some d \<and> TelemetrySchema_parse d = Inr m
                            \<and> seq m = expectedSeq (telemetry ?s)"
    by (simp add: JSON_parse_P0 TelemetrySchema_parse_def)
  from expectedSeq_steps[of "LIVE_LINK_CONFIG P0 Map.empty" keyring0 1000 "''p''" None "''N''"
         W_auth P0 "''T''", THEN conjunct2, THEN conjunct1, rule_format, OF h]
  have "\<exists>s'. sessions (snd (handler_message (LIVE_LINK_CONFIG P0 Map.empty) P0 keyring0 1000
                            ''p'' ''T'' W_auth)) ''p'' = Some s'
          \<and> expectedSeq (telemetry s') = 2"
    using p by (simp add: default_config)
  with h show ?thesis by (rule conjI)
qed

end
